theory Spec2Isabelle
  imports Complex_Main "HOL-Library.Word" "HOL-Library.Stream"
begin

section \<open>Numeric types of the Go source\<close>

text \<open>
  The repository holds two versions of \<open>rateLimiterWithJitter\<close> with the same type, field
  and method names. The model keeps the names and tells the versions apart by the suffixes
  \<open>_A\<close> (the exponent counter) and \<open>_B\<close> (the failure-rate moving average).

  \<^item> \<open>time.Duration\<close> is an \<open>int64\<close> count of nanoseconds and Go's \<open>int\<close> is 64 bits wide on
    the 64-bit platforms the program is built for: both are \<open>64 word\<close>, read as two's
    complement by \<open>sint\<close>; \<open>+\<close> and \<open>-\<close> wrap around as Go's do.
  \<^item> \<open>float64\<close> is IEEE 754 binary64: a finite value is a real number with a significand of
    53 bits, and there are the two infinities and NaN. Every arithmetic operation rounds its
    exact result to the nearest float64, ties to the even significand, and overflows to an
    infinity. Each operation of an expression rounds on its own, as the code that the gc
    compiler emits for amd64 does; the fusion of \<open>x * y + z\<close> into one rounding, which the
    Go specification allows and gc uses on some other platforms, is not modelled. The sign of
    zero is not modelled either: the programs divide only by \<open>float64(baseDelay)\<close>, the
    conversion of an integer, which is never \<open>-0\<close>.
  \<^item> The conversion \<open>float64(n)\<close> of an \<open>int64\<close> rounds to the nearest float64; it is exact
    up to \<open>2^53\<close>.
  \<^item> The conversion \<open>int64(x)\<close> of a float64 truncates towards zero when the truncated value
    fits into 64 bits. Otherwise (also for an infinity and NaN) the Go specification leaves
    the result to the implementation; it is the parameter \<open>oor\<close> of the model. The gc
    compiler for amd64 emits \<open>CVTTSD2SQ\<close>, which yields \<open>-2^63\<close> for every unrepresentable
    operand (\<open>oor_amd64\<close>); arm64's \<open>FCVTZS\<close> saturates and yields 0 for NaN
    (\<open>oor_saturate\<close>).
  \<^item> \<open>rand.Rand\<close> is the stream of the samples \<open>Float64()\<close> will return. A method that draws
    a sample returns the state with the rest of the stream. \<open>Float64()\<close> returns a float64
    in \<open>[0, 1)\<close>; statements that depend on it assume \<open>sample_ok\<close> of the sample.
  \<^item> The mutex makes every method atomic; the model is the sequential behaviour of one
    method call.
\<close>

subsection \<open>Rounding to float64\<close>

text \<open>
  \<open>p2 e\<close> is \<open>2^e\<close>. \<open>rne\<close> rounds a real number to the nearest integer, ties to even.
  \<open>expo x\<close> is the exponent of the unit in the last place of the float64 format at \<open>x\<close>:
  53 significant bits for a normal number, the fixed exponent \<open>-1074\<close> in the subnormal
  range. \<open>fl x\<close> rounds \<open>x\<close> to the nearest multiple of \<open>2^(expo x)\<close>, which is IEEE 754's
  round-to-nearest-even with an unbounded exponent; \<open>round64\<close> adds the overflow to an
  infinity, which IEEE 754 defines on that rounded value.
\<close>

definition p2 :: "int \<Rightarrow> real" where
  "p2 e = 2 powr of_int e"

definition rne :: "real \<Rightarrow> int" where
  "rne y = (let f = \<lfloor>y\<rfloor> in
     if y - of_int f < 1 / 2 then f
     else if 1 / 2 < y - of_int f then f + 1
     else if even f then f else f + 1)"

definition expo :: "real \<Rightarrow> int" where
  "expo x = max \<lfloor>log 2 \<bar>x\<bar>\<rfloor> (- 1022) - 52"

definition fl :: "real \<Rightarrow> real" where
  "fl x = (if x = 0 then 0 else of_int (rne (x / p2 (expo x))) * p2 (expo x))"

text \<open>The finite float64 values: a significand of 53 bits and a binary exponent in range.\<close>

definition is_float64 :: "real \<Rightarrow> bool" where
  "is_float64 x \<longleftrightarrow>
     (\<exists>m e :: int. \<bar>m\<bar> < 2 ^ 53 \<and> - 1074 \<le> e \<and> e \<le> 971 \<and> x = of_int m * p2 e)"

datatype float64 = Finite real | PosInf | NegInf | NaN

definition overflow64 :: real where
  "overflow64 = 2 ^ 1024"

definition round64 :: "real \<Rightarrow> float64" where
  "round64 x =
     (if overflow64 \<le> fl x then PosInf
      else if fl x \<le> - overflow64 then NegInf
      else Finite (fl x))"

subsection \<open>float64 arithmetic and comparison\<close>

fun fneg :: "float64 \<Rightarrow> float64" where
  "fneg (Finite x) = Finite (- x)"
| "fneg PosInf = NegInf"
| "fneg NegInf = PosInf"
| "fneg NaN = NaN"

fun fadd :: "float64 \<Rightarrow> float64 \<Rightarrow> float64" where
  "fadd NaN b = NaN"
| "fadd a NaN = NaN"
| "fadd (Finite x) (Finite y) = round64 (x + y)"
| "fadd PosInf NegInf = NaN"
| "fadd NegInf PosInf = NaN"
| "fadd PosInf b = PosInf"
| "fadd a PosInf = PosInf"
| "fadd NegInf b = NegInf"
| "fadd a NegInf = NegInf"

definition fsub :: "float64 \<Rightarrow> float64 \<Rightarrow> float64" where
  "fsub a b = fadd a (fneg b)"

fun fmul :: "float64 \<Rightarrow> float64 \<Rightarrow> float64" where
  "fmul NaN b = NaN"
| "fmul a NaN = NaN"
| "fmul (Finite x) (Finite y) = round64 (x * y)"
| "fmul (Finite x) PosInf = (if x = 0 then NaN else if 0 < x then PosInf else NegInf)"
| "fmul (Finite x) NegInf = (if x = 0 then NaN else if 0 < x then NegInf else PosInf)"
| "fmul PosInf (Finite y) = (if y = 0 then NaN else if 0 < y then PosInf else NegInf)"
| "fmul NegInf (Finite y) = (if y = 0 then NaN else if 0 < y then NegInf else PosInf)"
| "fmul PosInf PosInf = PosInf"
| "fmul PosInf NegInf = NegInf"
| "fmul NegInf PosInf = NegInf"
| "fmul NegInf NegInf = PosInf"

text \<open>
  Go's float64 division does not panic on a zero divisor: it yields an infinity, or NaN for
  \<open>0 / 0\<close>.
\<close>

fun fdiv :: "float64 \<Rightarrow> float64 \<Rightarrow> float64" where
  "fdiv NaN b = NaN"
| "fdiv a NaN = NaN"
| "fdiv (Finite x) (Finite y) =
     (if y = 0 then (if x = 0 then NaN else if 0 < x then PosInf else NegInf)
      else round64 (x / y))"
| "fdiv (Finite x) b = Finite 0"
| "fdiv PosInf (Finite y) = (if 0 \<le> y then PosInf else NegInf)"
| "fdiv NegInf (Finite y) = (if 0 \<le> y then NegInf else PosInf)"
| "fdiv a b = NaN"

text \<open>Every comparison with NaN is false.\<close>

fun flt :: "float64 \<Rightarrow> float64 \<Rightarrow> bool" where
  "flt NaN b = False"
| "flt a NaN = False"
| "flt (Finite x) (Finite y) = (x < y)"
| "flt a NegInf = False"
| "flt NegInf b = True"
| "flt PosInf b = False"
| "flt a PosInf = True"

fun fle :: "float64 \<Rightarrow> float64 \<Rightarrow> bool" where
  "fle NaN b = False"
| "fle a NaN = False"
| "fle (Finite x) (Finite y) = (x \<le> y)"
| "fle NegInf b = True"
| "fle a PosInf = True"
| "fle a b = False"

definition fgt :: "float64 \<Rightarrow> float64 \<Rightarrow> bool" where
  "fgt a b = flt b a"

text \<open>
  \<open>math.Pow(2, y)\<close>. The program calls it with \<open>float64(r.exp)\<close>, an integral value. For an
  integral \<open>y\<close> Go's \<open>math.Pow\<close> multiplies powers of two and scales by \<open>math.Ldexp\<close>, so
  the result is exactly \<open>2^y\<close> for \<open>-1074 \<le> y \<le> 1023\<close>, \<open>+Inf\<close> above and \<open>0\<close> below; the
  model is meant for integral arguments only.
\<close>

fun Pow2 :: "float64 \<Rightarrow> float64" where
  "Pow2 (Finite y) =
     (if 1023 < y then PosInf else if y < - 1074 then Finite 0 else Finite (2 powr y))"
| "Pow2 PosInf = PosInf"
| "Pow2 NegInf = Finite 0"
| "Pow2 NaN = NaN"

subsection \<open>Conversions\<close>

type_synonym Duration = "64 word"

definition float64_of_int64 :: "64 word \<Rightarrow> float64" where
  "float64_of_int64 w = Finite (fl (of_int (sint w)))"

definition trunc :: "real \<Rightarrow> int" where
  "trunc x = (if 0 \<le> x then \<lfloor>x\<rfloor> else \<lceil>x\<rceil>)"

fun int64_of_float64 :: "(float64 \<Rightarrow> 64 word) \<Rightarrow> float64 \<Rightarrow> 64 word" where
  "int64_of_float64 oor (Finite x) =
     (if - (2 ^ 63) \<le> trunc x \<and> trunc x < 2 ^ 63 then word_of_int (trunc x)
      else oor (Finite x))"
| "int64_of_float64 oor f = oor f"

definition oor_amd64 :: "float64 \<Rightarrow> 64 word" where
  "oor_amd64 f = word_of_int (- (2 ^ 63))"

fun oor_saturate :: "float64 \<Rightarrow> 64 word" where
  "oor_saturate (Finite x) = (if 0 \<le> x then word_of_int (2 ^ 63 - 1) else word_of_int (- (2 ^ 63)))"
| "oor_saturate PosInf = word_of_int (2 ^ 63 - 1)"
| "oor_saturate NegInf = word_of_int (- (2 ^ 63))"
| "oor_saturate NaN = 0"

text \<open>
  \<open>math.MaxInt64\<close> is the untyped constant \<open>2^63 - 1\<close>. In the comparison
  \<open>delay > math.MaxInt64\<close> it is converted to float64, where it rounds to \<open>2^63\<close>.
\<close>

definition MaxInt64_float64 :: float64 where
  "MaxInt64_float64 = round64 (2 ^ 63 - 1)"

text \<open>What \<open>Float64()\<close> returns: a finite float64 in \<open>[0, 1)\<close>.\<close>

definition sample_ok :: "float64 \<Rightarrow> bool" where
  "sample_ok f \<longleftrightarrow> (\<exists>p. f = Finite p \<and> is_float64 p \<and> 0 \<le> p \<and> p < 1)"

section \<open>Variant A: the exponent counter\<close>

record rateLimiter_A =
  exp_A :: "64 word"
  baseDelay_A :: Duration
  maxDelay_A :: Duration
  rd_A :: "float64 stream"

definition newItemExponentialFailureRateLimiterWithJitter_A ::
    "Duration \<Rightarrow> Duration \<Rightarrow> float64 stream \<Rightarrow> rateLimiter_A" where
  "newItemExponentialFailureRateLimiterWithJitter_A baseDelay maxDelay seeded =
     \<lparr>exp_A = 0, baseDelay_A = baseDelay, maxDelay_A = maxDelay, rd_A = seeded\<rparr>"

text \<open>
  The local variables of \<open>When()\<close>: \<open>delay\<close>, and the \<open>jitter\<close> and \<open>backoff\<close> that the
  current sample gives.
\<close>

definition delay_A :: "rateLimiter_A \<Rightarrow> float64" where
  "delay_A r = fmul (float64_of_int64 (baseDelay_A r)) (Pow2 (float64_of_int64 (exp_A r)))"

definition jitter_A :: "rateLimiter_A \<Rightarrow> float64" where
  "jitter_A r = fmul (float64_of_int64 (baseDelay_A r)) (shd (rd_A r))"

definition backoff_A :: "rateLimiter_A \<Rightarrow> float64" where
  "backoff_A r = fsub (delay_A r) (jitter_A r)"

definition When_A :: "(float64 \<Rightarrow> 64 word) \<Rightarrow> rateLimiter_A \<Rightarrow> Duration \<times> rateLimiter_A" where
  "When_A oor r =
     (let delay = delay_A r in
      if fgt delay MaxInt64_float64 \<or> sint (maxDelay_A r) < sint (int64_of_float64 oor delay)
      then (maxDelay_A r, r)
      else
        let percentage = shd (rd_A r);
            r' = r\<lparr>rd_A := stl (rd_A r)\<rparr>;
            jitter = fmul (float64_of_int64 (baseDelay_A r)) percentage;
            backoff = fsub delay jitter
        in if fle backoff (Finite 0) then (0, r') else (int64_of_float64 oor backoff, r'))"

definition Failure_A :: "rateLimiter_A \<Rightarrow> rateLimiter_A" where
  "Failure_A r = r\<lparr>exp_A := exp_A r + 1\<rparr>"

definition Success_A :: "rateLimiter_A \<Rightarrow> rateLimiter_A" where
  "Success_A r = (if 0 < sint (exp_A r) then r\<lparr>exp_A := exp_A r - 1\<rparr> else r)"

definition Exp_A :: "rateLimiter_A \<Rightarrow> 64 word \<times> rateLimiter_A" where
  "Exp_A r = (exp_A r, r)"

text \<open>
  The operations a caller can apply to a Variant A limiter, and a run of them. A state is
  reachable when a run from a fresh instance ends in it.
\<close>

datatype op_A = When_op_A | Failure_op_A | Success_op_A | Exp_op_A

fun step_A :: "(float64 \<Rightarrow> 64 word) \<Rightarrow> rateLimiter_A \<Rightarrow> op_A \<Rightarrow> rateLimiter_A" where
  "step_A oor r When_op_A = snd (When_A oor r)"
| "step_A oor r Failure_op_A = Failure_A r"
| "step_A oor r Success_op_A = Success_A r"
| "step_A oor r Exp_op_A = snd (Exp_A r)"

definition run_A :: "(float64 \<Rightarrow> 64 word) \<Rightarrow> op_A list \<Rightarrow> rateLimiter_A \<Rightarrow> rateLimiter_A" where
  "run_A oor ops r = foldl (step_A oor) r ops"

text \<open>
  The algorithm for \<open>When\<close> as the specification words it, in the same float64 arithmetic:
  the delay is clamped to \<open>maxDelay\<close> when it exceeds the range of the duration type
  (\<open>2^63\<close> nanoseconds and more) or \<open>maxDelay\<close>, and the jitter is then sampled and
  subtracted in every case.
\<close>

definition spec_clamps_A :: "rateLimiter_A \<Rightarrow> bool" where
  "spec_clamps_A r =
     (case delay_A r of
        Finite d \<Rightarrow> 2 ^ 63 \<le> d \<or> of_int (sint (maxDelay_A r)) < d
      | PosInf \<Rightarrow> True
      | NegInf \<Rightarrow> False
      | NaN \<Rightarrow> False)"

definition When_A_spec :: "(float64 \<Rightarrow> 64 word) \<Rightarrow> rateLimiter_A \<Rightarrow> Duration \<times> rateLimiter_A" where
  "When_A_spec oor r =
     (let delay = delay_A r;
          clamped = (if spec_clamps_A r then float64_of_int64 (maxDelay_A r) else delay);
          percentage = shd (rd_A r);
          jitter = fmul (float64_of_int64 (baseDelay_A r)) percentage;
          backoff = fsub clamped jitter
      in (if fle backoff (Finite 0) then 0 else int64_of_float64 oor backoff,
          r\<lparr>rd_A := stl (rd_A r)\<rparr>))"

section \<open>Variant B: the failure-rate moving average\<close>

text \<open>
  The embedded \<open>workqueue.RateLimiter\<close> belongs to client-go. Its state is the type
  parameter \<open>'q\<close>, and its methods \<open>When\<close> and \<open>Forget\<close> are parameters of the operations
  that call them.
\<close>

record 'q rateLimiter_B =
  RateLimiter :: 'q
  baseDelay_B :: Duration
  maxDelay_B :: Duration
  alpha :: float64
  scaleFactor :: float64
  failureRate :: float64
  rd_B :: "float64 stream"

definition newItemExponentialFailureRateLimiterWithJitter_B ::
    "'q \<Rightarrow> Duration \<Rightarrow> Duration \<Rightarrow> float64 \<Rightarrow> float64 stream \<Rightarrow> 'q rateLimiter_B" where
  "newItemExponentialFailureRateLimiterWithJitter_B inner baseDelay maxDelay a seeded =
     \<lparr>RateLimiter = inner, baseDelay_B = baseDelay, maxDelay_B = maxDelay, alpha = a,
      scaleFactor = Finite 1, failureRate = Finite 0, rd_B = seeded\<rparr>"

definition When_B ::
    "(float64 \<Rightarrow> 64 word) \<Rightarrow> ('q \<Rightarrow> 'i \<Rightarrow> Duration \<times> 'q) \<Rightarrow> 'q rateLimiter_B \<Rightarrow> 'i
      \<Rightarrow> Duration \<times> 'q rateLimiter_B" where
  "When_B oor inner_When r item =
     (let (baseline, q') = inner_When (RateLimiter r) item;
          scaled = int64_of_float64 oor (fmul (float64_of_int64 baseline) (scaleFactor r));
          delay = (if sint (maxDelay_B r) < sint scaled then maxDelay_B r else scaled);
          percentage = shd (rd_B r);
          r' = r\<lparr>RateLimiter := q', rd_B := stl (rd_B r)\<rparr>;
          jitter = int64_of_float64 oor (fmul (float64_of_int64 (baseDelay_B r)) percentage)
      in if sint delay < sint jitter then (0, r') else (delay - jitter, r'))"

definition ScaleFactor_B :: "'q rateLimiter_B \<Rightarrow> float64 \<times> 'q rateLimiter_B" where
  "ScaleFactor_B r = (scaleFactor r, r)"

text \<open>The quotient \<open>float64(r.maxDelay) / float64(r.baseDelay)\<close> that \<open>Success\<close> computes.\<close>

definition quotient_B :: "'q rateLimiter_B \<Rightarrow> float64" where
  "quotient_B r = fdiv (float64_of_int64 (maxDelay_B r)) (float64_of_int64 (baseDelay_B r))"

definition Success_B :: "'q rateLimiter_B \<Rightarrow> bool \<Rightarrow> 'q rateLimiter_B" where
  "Success_B r success =
     (let newSample = (if \<not> success then Finite 1 else Finite 0);
          r1 = r\<lparr>failureRate :=
                  fadd (fmul (alpha r) newSample)
                       (fmul (fsub (Finite 1) (alpha r)) (failureRate r))\<rparr>
      in r1\<lparr>scaleFactor :=
              fadd (fmul (failureRate r1)
                         (fsub (fdiv (float64_of_int64 (maxDelay_B r1))
                                     (float64_of_int64 (baseDelay_B r1)))
                               (Finite 1)))
                   (Finite 1)\<rparr>)"

definition Forget_B :: "('q \<Rightarrow> 'i \<Rightarrow> 'q) \<Rightarrow> 'q rateLimiter_B \<Rightarrow> 'i \<Rightarrow> 'q rateLimiter_B" where
  "Forget_B inner_Forget r item = r\<lparr>RateLimiter := inner_Forget (RateLimiter r) item\<rparr>"

datatype 'i op_B = When_op_B 'i | Success_op_B bool | ScaleFactor_op_B

fun step_B ::
    "(float64 \<Rightarrow> 64 word) \<Rightarrow> ('q \<Rightarrow> 'i \<Rightarrow> Duration \<times> 'q) \<Rightarrow> 'q rateLimiter_B \<Rightarrow> 'i op_B
      \<Rightarrow> 'q rateLimiter_B" where
  "step_B oor inner_When r (When_op_B item) = snd (When_B oor inner_When r item)"
| "step_B oor inner_When r (Success_op_B success) = Success_B r success"
| "step_B oor inner_When r ScaleFactor_op_B = snd (ScaleFactor_B r)"

definition run_B ::
    "(float64 \<Rightarrow> 64 word) \<Rightarrow> ('q \<Rightarrow> 'i \<Rightarrow> Duration \<times> 'q) \<Rightarrow> 'i op_B list \<Rightarrow> 'q rateLimiter_B
      \<Rightarrow> 'q rateLimiter_B" where
  "run_B oor inner_When ops r = foldl (step_B oor inner_When) r ops"

text \<open>
  The invariant of Variant B in float64: \<open>0 \<le> failureRate \<le> 1\<close> and
  \<open>1 \<le> scaleFactor \<le> quotient\<close>, where the bound on \<open>scaleFactor\<close> is the quotient as the
  code computes it, rounded to float64.
\<close>

definition inv_B :: "'q rateLimiter_B \<Rightarrow> bool" where
  "inv_B r \<longleftrightarrow>
     fle (Finite 0) (failureRate r) \<and> fle (failureRate r) (Finite 1) \<and>
     fle (Finite 1) (scaleFactor r) \<and> fle (scaleFactor r) (quotient_B r)"

text \<open>
  One round of the loops of \<open>TestRateLimiter\<close>: \<open>When(1)\<close>, \<open>Forget(1)\<close>, \<open>Success(success)\<close>.
\<close>

definition test_round ::
    "(float64 \<Rightarrow> 64 word) \<Rightarrow> ('q \<Rightarrow> 'i \<Rightarrow> Duration \<times> 'q) \<Rightarrow> ('q \<Rightarrow> 'i \<Rightarrow> 'q) \<Rightarrow> 'i \<Rightarrow> bool
      \<Rightarrow> 'q rateLimiter_B \<Rightarrow> 'q rateLimiter_B" where
  "test_round oor inner_When inner_Forget item success r =
     Success_B (Forget_B inner_Forget (snd (When_B oor inner_When r item)) item) success"

section \<open>Facts about rounding\<close>

text \<open>
  Powers of two, rounding to an integer, the exponent of the last place, and the rounding
  \<open>fl\<close>: it leaves every float64 value as it is, it is monotone, and its error is at most
  half a unit in the last place.
\<close>

lemma real_of_int_ge: "(k :: int) \<le> n \<Longrightarrow> (of_int k :: real) \<le> of_int n"
  by (simp only: of_int_le_iff)

lemma real_of_int_gt: "(k :: int) < n \<Longrightarrow> (of_int k :: real) < of_int n"
  by (simp only: of_int_less_iff)

lemma p2_pos [simp]: "0 < p2 e"
  by (simp add: p2_def)

lemma p2_nonneg [simp]: "0 \<le> p2 e"
  by (simp add: p2_def)

lemma p2_neq0 [simp]: "p2 e \<noteq> 0"
  by (simp add: p2_def)

lemma abs_p2 [simp]: "\<bar>p2 e\<bar> = p2 e"
  by (simp add: p2_def)

lemma p2_add: "p2 (a + b) = p2 a * p2 b"
  by (simp add: p2_def powr_add)

lemma p2_diff: "p2 (a - b) = p2 a / p2 b"
  by (simp add: p2_def powr_diff)

lemma p2_nat: "0 \<le> e \<Longrightarrow> p2 e = 2 ^ nat e"
  by (simp add: p2_def powr_real_of_int)

lemma p2_of_int: "0 \<le> e \<Longrightarrow> p2 e = of_int (2 ^ nat e)"
  by (simp add: p2_nat)

lemma p2_le_iff [simp]: "p2 a \<le> p2 b \<longleftrightarrow> a \<le> b"
  by (simp add: p2_def)

lemma p2_less_iff [simp]: "p2 a < p2 b \<longleftrightarrow> a < b"
  by (simp add: p2_def)

lemma p2_0 [simp]: "p2 0 = 1"
  by (simp add: p2_def)

lemma p2_numeral [simp]: "p2 (numeral n) = 2 ^ numeral n"
  by (simp add: p2_def)

lemma p2_neg_numeral [simp]: "p2 (- numeral n) = 1 / 2 ^ numeral n"
  by (simp add: p2_def powr_minus inverse_eq_divide)

lemma p2_1 [simp]: "p2 1 = 2"
  by (simp add: p2_def)

lemma p2_m1 [simp]: "p2 (- 1) = 1 / 2"
  by (simp add: p2_def powr_minus inverse_eq_divide)

lemma rne_of_int [simp]: "rne (of_int k) = k"
  by (simp add: rne_def)

lemma rne_lower: "\<lfloor>y\<rfloor> \<le> rne y"
  by (simp add: rne_def Let_def)

lemma rne_upper: "rne y \<le> \<lfloor>y\<rfloor> + 1"
  by (simp add: rne_def Let_def)

lemma rne_mono: "x \<le> y \<Longrightarrow> rne x \<le> rne y"
proof (cases "\<lfloor>x\<rfloor> < \<lfloor>y\<rfloor>")
  case True
  then show ?thesis using rne_upper [of x] rne_lower [of y] by linarith
next
  case False
  assume xy: "x \<le> y"
  then have "\<lfloor>x\<rfloor> \<le> \<lfloor>y\<rfloor>" by (rule floor_mono)
  with False have eq: "\<lfloor>x\<rfloor> = \<lfloor>y\<rfloor>" by simp
  show ?thesis using xy by (auto simp: rne_def Let_def eq)
qed

lemma rne_err: "\<bar>of_int (rne y) - y\<bar> \<le> 1 / 2"
proof -
  have "of_int \<lfloor>y\<rfloor> \<le> y" "y < of_int \<lfloor>y\<rfloor> + 1" by linarith+
  then show ?thesis by (auto simp: rne_def Let_def)
qed

lemma rne_le_int: "y \<le> of_int k \<Longrightarrow> rne y \<le> k"
  using rne_mono [of y "of_int k"] by simp

lemma rne_ge_int: "of_int k \<le> y \<Longrightarrow> k \<le> rne y"
  using rne_mono [of "of_int k" y] by simp

lemma rne_small: "0 \<le> d \<Longrightarrow> d < 1 / 2 \<Longrightarrow> rne (of_int n + d) = n"
proof -
  assume d: "0 \<le> d" "d < 1 / 2"
  then have "\<lfloor>of_int n + d\<rfloor> = n" by (simp add: floor_eq_iff)
  then show ?thesis using d by (simp add: rne_def Let_def)
qed

lemma rne_half: "rne (of_int n + 1 / 2) = (if even n then n else n + 1)"
proof -
  have "\<lfloor>of_int n + (1 / 2 :: real)\<rfloor> = n" by (simp add: floor_eq_iff)
  then show ?thesis by (simp add: rne_def Let_def)
qed

lemma expo_ge: "- 1074 \<le> expo x"
  by (simp add: expo_def)

lemma floor_log2: "0 < a \<Longrightarrow> p2 \<lfloor>log 2 a\<rfloor> \<le> a \<and> a < p2 (\<lfloor>log 2 a\<rfloor> + 1)"
  using floor_log_eq_powr_iff [of a 2 "\<lfloor>log 2 a\<rfloor>"] by (simp add: p2_def)

lemma expo_upper: "x \<noteq> 0 \<Longrightarrow> \<bar>x\<bar> < p2 (expo x + 53)"
proof -
  assume "x \<noteq> 0"
  then have "\<bar>x\<bar> < p2 (\<lfloor>log 2 \<bar>x\<bar>\<rfloor> + 1)" using floor_log2 [of "\<bar>x\<bar>"] by simp
  also have "\<dots> \<le> p2 (expo x + 53)" by (simp add: expo_def)
  finally show ?thesis .
qed

lemma expo_lower: "x \<noteq> 0 \<Longrightarrow> - 1074 < expo x \<Longrightarrow> p2 (expo x + 52) \<le> \<bar>x\<bar>"
proof -
  assume x: "x \<noteq> 0" and e: "- 1074 < expo x"
  then have "expo x + 52 = \<lfloor>log 2 \<bar>x\<bar>\<rfloor>" by (simp add: expo_def max_def split: if_splits)
  then show ?thesis using floor_log2 [of "\<bar>x\<bar>"] x by simp
qed

lemma expo_le: "x \<noteq> 0 \<Longrightarrow> \<bar>x\<bar> < p2 (e + 53) \<Longrightarrow> - 1074 \<le> e \<Longrightarrow> expo x \<le> e"
proof -
  assume x: "x \<noteq> 0" and b: "\<bar>x\<bar> < p2 (e + 53)" and e: "- 1074 \<le> e"
  have "p2 \<lfloor>log 2 \<bar>x\<bar>\<rfloor> \<le> \<bar>x\<bar>" using floor_log2 [of "\<bar>x\<bar>"] x by simp
  then have "p2 \<lfloor>log 2 \<bar>x\<bar>\<rfloor> < p2 (e + 53)" using b by (rule le_less_trans)
  then have "\<lfloor>log 2 \<bar>x\<bar>\<rfloor> < e + 53" by (simp only: p2_less_iff)
  then show ?thesis using e by (simp add: expo_def)
qed

lemma expo_eq:
  "p2 (e + 52) \<le> \<bar>x\<bar> \<Longrightarrow> \<bar>x\<bar> < p2 (e + 53) \<Longrightarrow> - 1074 \<le> e \<Longrightarrow> expo x = e"
proof -
  assume l: "p2 (e + 52) \<le> \<bar>x\<bar>" and u: "\<bar>x\<bar> < p2 (e + 53)" and e: "- 1074 \<le> e"
  have pos: "0 < \<bar>x\<bar>" using l p2_pos [of "e + 52"] by linarith
  have "\<lfloor>log 2 \<bar>x\<bar>\<rfloor> = e + 52"
    using floor_log_eq_powr_iff [of "\<bar>x\<bar>" 2 "e + 52"] pos l u by (simp add: p2_def add.commute)
  then show ?thesis using e by (simp add: expo_def)
qed

lemma expo_mono: "0 < x \<Longrightarrow> x \<le> y \<Longrightarrow> expo x \<le> expo y"
proof -
  assume "0 < x" "x \<le> y"
  then have "log 2 \<bar>x\<bar> \<le> log 2 \<bar>y\<bar>" by simp
  then have "\<lfloor>log 2 \<bar>x\<bar>\<rfloor> \<le> \<lfloor>log 2 \<bar>y\<bar>\<rfloor>" by (rule floor_mono)
  then show ?thesis by (simp add: expo_def)
qed

lemma expo_ge_of: "p2 (e + 52) \<le> \<bar>x\<bar> \<Longrightarrow> e \<le> expo x"
proof -
  assume l: "p2 (e + 52) \<le> \<bar>x\<bar>"
  have "0 < \<bar>x\<bar>" using l p2_pos [of "e + 52"] by linarith
  then have "x \<noteq> 0" by simp
  then have "\<bar>x\<bar> < p2 (expo x + 53)" by (rule expo_upper)
  with l have "p2 (e + 52) < p2 (expo x + 53)" by (rule le_less_trans)
  then have "e + 52 < expo x + 53" by (simp only: p2_less_iff)
  then show ?thesis by simp
qed

lemma fl_0 [simp]: "fl 0 = 0"
  by (simp add: fl_def)

lemma fl_nonneg: "0 \<le> x \<Longrightarrow> 0 \<le> fl x"
proof -
  assume "0 \<le> x"
  then have "0 \<le> x / p2 (expo x)" by simp
  then have "0 \<le> rne (x / p2 (expo x))" using rne_ge_int [of 0] by simp
  then show ?thesis by (simp add: fl_def)
qed

lemma fl_on_grid:
  assumes x: "x \<noteq> 0" and le: "expo x \<le> e0" and g: "x = of_int m * p2 e0"
  shows "fl x = x"
proof -
  define E where "E = expo x"
  define d where "d = e0 - E"
  have d: "0 \<le> d" using le by (simp add: d_def E_def)
  have pe: "p2 e0 = p2 d * p2 E" unfolding d_def by (simp add: p2_add [symmetric])
  have "x / p2 E = of_int m * p2 d * p2 E / p2 E" by (simp add: g pe)
  also have "\<dots> = of_int m * p2 d" by simp
  also have "\<dots> = of_int (m * 2 ^ nat d)" using d by (simp add: p2_nat)
  finally have "rne (x / p2 E) = m * 2 ^ nat d" by (simp only: rne_of_int)
  then have "fl x = of_int (m * 2 ^ nat d) * p2 E" using x by (simp add: fl_def E_def)
  also have "\<dots> = of_int m * (p2 d * p2 E)" using d by (simp add: p2_nat)
  also have "\<dots> = x" by (simp add: g pe)
  finally show ?thesis .
qed

lemma fl_exact: "is_float64 x \<Longrightarrow> fl x = x"
proof (cases "x = 0")
  case True
  then show ?thesis by simp
next
  case False
  assume "is_float64 x"
  then obtain m e where m: "\<bar>m\<bar> < 2 ^ 53" and e: "- 1074 \<le> e" and x: "x = of_int m * p2 e"
    unfolding is_float64_def by blast
  have "\<bar>x\<bar> = of_int \<bar>m\<bar> * p2 e" using x by (simp add: abs_mult)
  also have "\<dots> < 2 ^ 53 * p2 e"
    using real_of_int_gt [OF m] by (intro mult_strict_right_mono) simp_all
  also have "\<dots> = p2 (e + 53)" by (simp add: p2_add p2_nat)
  finally have "expo x \<le> e" using False e by (intro expo_le)
  then show ?thesis using False x by (intro fl_on_grid)
qed

lemma fl_mono_pos:
  assumes x: "0 < x" and xy: "x \<le> y"
  shows "fl x \<le> fl y"
proof -
  have y: "0 < y" using x xy by simp
  have le: "expo x \<le> expo y" using x xy by (rule expo_mono)
  show ?thesis
  proof (cases "expo x = expo y")
    case True
    have "x / p2 (expo y) \<le> y / p2 (expo y)" using xy by (simp add: divide_right_mono)
    then have "rne (x / p2 (expo y)) \<le> rne (y / p2 (expo y))" by (rule rne_mono)
    then have "of_int (rne (x / p2 (expo y))) * p2 (expo y) \<le> of_int (rne (y / p2 (expo y))) * p2 (expo y)"
      by (intro mult_right_mono) simp_all
    then show ?thesis using x y True by (simp add: fl_def)
  next
    case False
    with le have lt: "expo x < expo y" by simp
    define B where "B = p2 (expo y + 52)"
    have By: "B \<le> y"
      using expo_lower [of y] y lt expo_ge [of x] by (simp add: B_def)
    have "x < p2 (expo x + 53)" using expo_upper [of x] x by simp
    also have "\<dots> \<le> B" using lt by (simp add: B_def)
    finally have xB: "x < B" .
    have B0: "B \<noteq> 0" "0 < B" using p2_pos [of "expo y + 52"] by (simp_all add: B_def)
    have eB: "expo B = expo y"
      using expo_ge [of y] by (intro expo_eq) (simp_all add: B_def)
    have flB: "fl B = B"
      using B0(1) eB by (intro fl_on_grid [where m = "2 ^ 52" and ?e0.0 = "expo y"]) (simp_all add: B_def p2_add p2_nat)
    have "B = of_int (2 ^ nat (expo y + 52 - expo x)) * p2 (expo x)"
    proof -
      have "p2 (expo y + 52) = p2 (expo y + 52 - expo x) * p2 (expo x)" by (simp add: p2_add [symmetric])
      then show ?thesis using lt by (simp add: B_def p2_nat)
    qed
    then have "B / p2 (expo x) = of_int (2 ^ nat (expo y + 52 - expo x))" by simp
    then have rB: "rne (B / p2 (expo x)) = 2 ^ nat (expo y + 52 - expo x)" by (simp only: rne_of_int)
    have "x / p2 (expo x) \<le> B / p2 (expo x)" using xB by (simp add: divide_right_mono)
    then have "rne (x / p2 (expo x)) \<le> rne (B / p2 (expo x))" by (rule rne_mono)
    then have "of_int (rne (x / p2 (expo x))) * p2 (expo x) \<le> of_int (rne (B / p2 (expo x))) * p2 (expo x)"
      by (intro mult_right_mono) simp_all
    also have "\<dots> = B" using rB \<open>B = of_int (2 ^ nat (expo y + 52 - expo x)) * p2 (expo x)\<close> by simp
    finally have 1: "fl x \<le> B" using x by (simp add: fl_def)
    have "B / p2 (expo y) \<le> y / p2 (expo y)" using By by (simp add: divide_right_mono)
    then have "rne (B / p2 (expo y)) \<le> rne (y / p2 (expo y))" by (rule rne_mono)
    then have "of_int (rne (B / p2 (expo y))) * p2 (expo y) \<le> of_int (rne (y / p2 (expo y))) * p2 (expo y)"
      by (intro mult_right_mono) simp_all
    then have "fl B \<le> fl y" using y B0 eB by (simp add: fl_def)
    then show ?thesis using 1 flB by simp
  qed
qed

lemma fl_mono: "0 \<le> x \<Longrightarrow> x \<le> y \<Longrightarrow> fl x \<le> fl y"
  using fl_mono_pos [of x y] fl_nonneg [of y] by (cases "x = 0") simp_all

lemma fl_eval:
  "p2 (e + 52) \<le> \<bar>x\<bar> \<Longrightarrow> \<bar>x\<bar> < p2 (e + 53) \<Longrightarrow> - 1074 \<le> e
    \<Longrightarrow> fl x = of_int (rne (x / p2 e)) * p2 e"
proof -
  assume l: "p2 (e + 52) \<le> \<bar>x\<bar>" and u: "\<bar>x\<bar> < p2 (e + 53)" and e: "- 1074 \<le> e"
  have "0 < \<bar>x\<bar>" using l p2_pos [of "e + 52"] by linarith
  then have "x \<noteq> 0" by simp
  moreover have "expo x = e" using l u e by (rule expo_eq)
  ultimately show ?thesis by (simp add: fl_def)
qed

lemma fl_err_abs: "\<bar>fl x - x\<bar> \<le> p2 (expo x) / 2"
proof (cases "x = 0")
  case True
  then show ?thesis by simp
next
  case False
  define E where "E = expo x"
  define n :: real where "n = of_int (rne (x / p2 E))"
  have r: "\<bar>n - x / p2 E\<bar> \<le> 1 / 2" unfolding n_def by (rule rne_err)
  have "n * p2 E - x = (n - x / p2 E) * p2 E" by (simp add: algebra_simps)
  then have "\<bar>n * p2 E - x\<bar> = \<bar>n - x / p2 E\<bar> * p2 E" by (simp only: abs_mult abs_p2)
  also have "\<dots> \<le> 1 / 2 * p2 E" using r by (rule mult_right_mono) simp
  finally have "\<bar>n * p2 E - x\<bar> \<le> p2 E / 2" by simp
  moreover have "fl x = n * p2 E" using False by (simp add: fl_def E_def n_def)
  ultimately show ?thesis by (simp add: E_def)
qed

lemma fl_err_lt1: "\<bar>x\<bar> < 1 \<Longrightarrow> \<bar>fl x - x\<bar> \<le> 1 / 2 ^ 54"
proof (cases "x = 0")
  case True
  then show ?thesis by simp
next
  case False
  assume "\<bar>x\<bar> < 1"
  then have "expo x \<le> - 53" using False by (intro expo_le) simp_all
  then have "p2 (expo x) \<le> p2 (- 53)" by (simp only: p2_le_iff)
  then have "p2 (expo x) / 2 \<le> 1 / 2 ^ 54" by simp
  with fl_err_abs [of x] show ?thesis by linarith
qed

lemma fl_err_rel: "p2 (- 1022) \<le> \<bar>x\<bar> \<Longrightarrow> \<bar>fl x - x\<bar> \<le> \<bar>x\<bar> / 2 ^ 53"
proof -
  assume n: "p2 (- 1022) \<le> \<bar>x\<bar>"
  have "0 < \<bar>x\<bar>" using n p2_pos [of "- 1022"] by linarith
  then have x: "x \<noteq> 0" by simp
  have "p2 (expo x + 52) \<le> \<bar>x\<bar>"
  proof (cases "- 1074 < expo x")
    case True
    then show ?thesis using x by (intro expo_lower)
  next
    case False
    then have "expo x = - 1074" using expo_ge [of x] by simp
    then show ?thesis using n by simp
  qed
  then have "p2 (expo x) * 2 ^ 52 \<le> \<bar>x\<bar>" by (simp add: p2_add)
  then have "p2 (expo x) / 2 \<le> \<bar>x\<bar> / 2 ^ 53" by (simp add: field_simps)
  with fl_err_abs [of x] show ?thesis by linarith
qed

lemma is_float64I:
  "\<bar>m\<bar> < 2 ^ 53 \<Longrightarrow> - 1074 \<le> e \<Longrightarrow> e \<le> 971 \<Longrightarrow> x = of_int m * p2 e \<Longrightarrow> is_float64 x"
  unfolding is_float64_def by blast

lemma is_float64_int: "\<bar>k\<bar> < 2 ^ 53 \<Longrightarrow> is_float64 (of_int k)"
  by (rule is_float64I [of k 0]) simp_all

lemma is_float64_0 [simp]: "is_float64 0"
  using is_float64_int [of 0] by simp

lemma is_float64_1 [simp]: "is_float64 1"
  using is_float64_int [of 1] by simp

lemma fl_1 [simp]: "fl 1 = 1"
  by (simp add: fl_exact)

lemma fl_err_le1: "\<bar>x\<bar> \<le> 1 \<Longrightarrow> \<bar>fl x - x\<bar> \<le> 1 / 2 ^ 54"
proof (cases "\<bar>x\<bar> < 1")
  case True
  then show ?thesis by (rule fl_err_lt1)
next
  case False
  assume "\<bar>x\<bar> \<le> 1"
  with False have "x = 1 \<or> x = - 1" by auto
  then show ?thesis
  proof
    assume "x = 1"
    then show ?thesis by simp
  next
    assume x: "x = - 1"
    have "is_float64 (- 1)" using is_float64I [of "- 1" 0 "- 1"] by simp
    then have "fl (- 1) = - 1" by (rule fl_exact)
    then show ?thesis using x by simp
  qed
qed

lemma fl_is_float64:
  assumes x: "0 \<le> x" and b: "fl x < 2 ^ 1024"
  shows "is_float64 (fl x)"
proof (cases "x = 0")
  case True
  then show ?thesis by simp
next
  case False
  define E where "E = expo x"
  define n where "n = rne (x / p2 E)"
  have fx: "fl x = of_int n * p2 E" using False by (simp add: fl_def E_def n_def)
  have E: "- 1074 \<le> E" by (simp add: E_def expo_ge)
  have "x < p2 (E + 53)" using expo_upper [of x] False x by (simp add: E_def)
  then have "x / p2 E < 2 ^ 53" by (simp add: p2_add field_simps)
  then have "x / p2 E \<le> of_int (2 ^ 53)" by simp
  then have n1: "n \<le> 2 ^ 53" unfolding n_def by (rule rne_le_int)
  have "of_int 0 \<le> x / p2 E" using x by simp
  then have n0: "0 \<le> n" unfolding n_def by (rule rne_ge_int)
  have n52: "2 ^ 52 \<le> n" if "- 1074 < E"
  proof -
    have "p2 (E + 52) \<le> x" using expo_lower [of x] False x that by (simp add: E_def)
    then have "of_int (2 ^ 52) \<le> x / p2 E" by (simp add: p2_add field_simps)
    then show ?thesis unfolding n_def by (rule rne_ge_int)
  qed
  have E971: "E \<le> 971"
  proof (rule ccontr)
    assume "\<not> E \<le> 971"
    then have E': "972 \<le> E" by simp
    then have "2 ^ 52 \<le> n" using n52 by simp
    then have "(2 ^ 52 :: real) \<le> of_int n" using real_of_int_ge [of "2 ^ 52" n] by simp
    moreover have "p2 972 \<le> p2 E" using E' by (simp only: p2_le_iff)
    ultimately have "2 ^ 52 * p2 972 \<le> of_int n * p2 E" by (intro mult_mono) simp_all
    then show False using b fx by simp
  qed
  show ?thesis
  proof (cases "n = 2 ^ 53")
    case True
    have "E \<noteq> 971"
    proof
      assume "E = 971"
      then have "fl x = 2 ^ 53 * p2 971" using fx True by simp
      then show False using b by simp
    qed
    then have "E + 1 \<le> 971" using E971 by simp
    moreover have "fl x = of_int (2 ^ 52) * p2 (E + 1)" using fx True by (simp add: p2_add)
    ultimately show ?thesis using E by (intro is_float64I [of "2 ^ 52" "E + 1"]) simp_all
  next
    case False
    then have "\<bar>n\<bar> < 2 ^ 53" using n0 n1 by simp
    then show ?thesis using E E971 fx by (intro is_float64I [of n E])
  qed
qed

lemma fl_idem: "0 \<le> x \<Longrightarrow> fl x < 2 ^ 1024 \<Longrightarrow> fl (fl x) = fl x"
  by (simp add: fl_exact fl_is_float64)

lemma fl_int: "\<exists>j. fl (of_int k) = of_int j"
proof (cases "\<bar>k\<bar> < 2 ^ 53")
  case True
  then have "fl (of_int k) = of_int k" by (simp add: fl_exact is_float64_int)
  then show ?thesis by blast
next
  case False
  define x :: real where "x = of_int k"
  have "(2 ^ 53 :: int) \<le> \<bar>k\<bar>" using False by simp
  then have "of_int (2 ^ 53) \<le> (of_int \<bar>k\<bar> :: real)" by (simp only: of_int_le_iff)
  then have "p2 (1 + 52) \<le> \<bar>x\<bar>" by (simp add: x_def)
  then have e: "1 \<le> expo x" by (rule expo_ge_of)
  have "x \<noteq> 0" using False by (auto simp: x_def)
  then have "fl x = of_int (rne (x / p2 (expo x))) * p2 (expo x)" by (simp add: fl_def)
  also have "\<dots> = of_int (rne (x / p2 (expo x)) * 2 ^ nat (expo x))" using e by (simp add: p2_nat)
  finally show ?thesis unfolding x_def by blast
qed

lemma float_lt1:
  assumes f: "is_float64 p" and p: "p < 1"
  shows "p \<le> 1 - 1 / 2 ^ 53"
proof (cases "p \<le> 1 / 2")
  case True
  then show ?thesis by simp
next
  case False
  from f obtain m e where m: "\<bar>m\<bar> < 2 ^ 53" and pe: "p = of_int m * p2 e"
    unfolding is_float64_def by blast
  have mpos: "0 < m"
  proof (rule ccontr)
    assume "\<not> 0 < m"
    then have "of_int m * p2 e \<le> 0" by (simp add: mult_nonpos_nonneg)
    then show False using False pe by simp
  qed
  have "(of_int m :: real) < 2 ^ 53" using real_of_int_gt [of m "2 ^ 53"] m by simp
  then have a: "of_int m * p2 e < 2 ^ 53 * p2 e" by (intro mult_strict_right_mono) simp_all
  have "1 / 2 < p" using False by simp
  then have "1 / 2 < 2 ^ 53 * p2 e" using a unfolding pe by (rule less_trans)
  then have "p2 (- 54) < p2 e" by (simp add: field_simps)
  then have "- 54 < e" by (simp only: p2_less_iff)
  then have e: "- 53 \<le> e" by simp
  define N where "N = m * 2 ^ nat (e + 53)"
  have "p2 e = p2 (e + 53) * p2 (- 53)" by (simp only: p2_add [symmetric]) simp
  then have pN: "p = of_int N / 2 ^ 53" using e pe by (simp add: N_def p2_nat)
  then have "of_int N < (of_int (2 ^ 53) :: real)" using p by (simp add: field_simps)
  then have "N < 2 ^ 53" by (simp only: of_int_less_iff)
  then have "N \<le> 2 ^ 53 - 1" by simp
  then have "(of_int N :: real) \<le> of_int (2 ^ 53 - 1)" by (simp only: of_int_le_iff)
  then show ?thesis using pN by (simp add: field_simps)
qed

lemma is_float64_numeral [simp]: "numeral n < (2 ^ 53 :: int) \<Longrightarrow> is_float64 (numeral n)"
  using is_float64_int [of "numeral n"] by simp

lemma fl_numeral [simp]: "numeral n < (2 ^ 53 :: int) \<Longrightarrow> fl (numeral n) = numeral n"
  by (rule fl_exact, rule is_float64_numeral)

lemma is_float64_half: "is_float64 (1 / 2)"
  by (rule is_float64I [of 2 "- 2"]) simp_all

lemma is_float64_2m106: "is_float64 (1 / 2 ^ 106)"
  by (rule is_float64I [of 1 "- 106"]) simp_all

lemma is_float64_2p63: "is_float64 (2 ^ 63)"
  by (rule is_float64I [of 1 63]) simp_all

lemma is_float64_alpha: "is_float64 (3602879701896397 / 2 ^ 56)"
  by (rule is_float64I [of 3602879701896397 "- 56"]) simp_all

text \<open>
  The roundings that the statements below meet: \<open>0.05\<close> and \<open>1 - 0.05\<close> (the constants of
  the test), a scale factor computed from them, \<open>0.1\<close> and a jitter
  computed from it, \<open>10 / 3\<close>, \<open>2^63 - 1\<close>, and two ties.
\<close>

lemma fl_one_twentieth: "fl (5 / 100) = 3602879701896397 / 2 ^ 56"
proof -
  have "fl (5 / 100) = of_int (rne ((5 / 100) / p2 (- 57))) * p2 (- 57)"
    by (rule fl_eval) simp_all
  also have "rne ((5 / 100) / p2 (- 57)) = 7205759403792794"
    by (simp add: rne_def Let_def)
  finally show ?thesis by simp
qed

lemma beta_val: "fl (1 - 3602879701896397 / 2 ^ 56) = 8556839292003942 / 2 ^ 53"
proof -
  have "fl (1 - 3602879701896397 / 2 ^ 56)
      = of_int (rne ((1 - 3602879701896397 / 2 ^ 56) / p2 (- 53))) * p2 (- 53)"
    by (rule fl_eval) simp_all
  also have "rne ((1 - 3602879701896397 / 2 ^ 56) / p2 (- 53)) = 8556839292003942"
    by (simp add: rne_def Let_def)
  finally show ?thesis by simp
qed

lemma fl_nine_alpha: "fl (3602879701896397 / 2 ^ 56 * 9) = 8106479329266893 / 2 ^ 54"
proof -
  have "fl (3602879701896397 / 2 ^ 56 * 9)
      = of_int (rne ((3602879701896397 / 2 ^ 56 * 9) / p2 (- 54))) * p2 (- 54)"
    by (rule fl_eval) simp_all
  also have "rne ((3602879701896397 / 2 ^ 56 * 9) / p2 (- 54)) = 8106479329266893"
    by (simp add: rne_def Let_def)
  finally show ?thesis by simp
qed

lemma fl_nine_alpha_plus1: "fl (8106479329266893 / 2 ^ 54 + 1) = 6530219459687219 / 2 ^ 52"
proof -
  have "fl (8106479329266893 / 2 ^ 54 + 1)
      = of_int (rne ((8106479329266893 / 2 ^ 54 + 1) / p2 (- 52))) * p2 (- 52)"
    by (rule fl_eval) simp_all
  also have "rne ((8106479329266893 / 2 ^ 54 + 1) / p2 (- 52)) = 6530219459687219"
    by (simp add: rne_def Let_def)
  finally show ?thesis by simp
qed

lemma fl_one_tenth: "fl (1 / 10) = 3602879701896397 / 2 ^ 55"
proof -
  have "fl (1 / 10) = of_int (rne ((1 / 10) / p2 (- 56))) * p2 (- 56)"
    by (rule fl_eval) simp_all
  also have "rne ((1 / 10) / p2 (- 56)) = 7205759403792794"
    by (simp add: rne_def Let_def)
  finally show ?thesis by simp
qed

lemma fl_jitter_one_tenth: "fl (1000000000 * (3602879701896397 / 2 ^ 55)) = 100000000"
proof -
  have "fl (1000000000 * (3602879701896397 / 2 ^ 55))
      = of_int (rne ((1000000000 * (3602879701896397 / 2 ^ 55)) / p2 (- 26))) * p2 (- 26)"
    by (rule fl_eval) simp_all
  also have "rne ((1000000000 * (3602879701896397 / 2 ^ 55)) / p2 (- 26)) = 6710886400000000"
    by (simp add: rne_def Let_def)
  finally show ?thesis by simp
qed

lemma fl_ten_thirds: "fl (10 / 3) = 7505999378950827 / 2 ^ 51"
proof -
  have "fl (10 / 3) = of_int (rne ((10 / 3) / p2 (- 51))) * p2 (- 51)"
    by (rule fl_eval) simp_all
  also have "rne ((10 / 3) / p2 (- 51)) = 7505999378950827"
    by (simp add: rne_def Let_def)
  finally show ?thesis by simp
qed

lemma fl_2p53_plus1: "fl 9007199254740993 = 9007199254740992"
proof -
  have "fl 9007199254740993 = of_int (rne (9007199254740993 / p2 1)) * p2 1"
    by (rule fl_eval) simp_all
  also have "rne (9007199254740993 / p2 1) = 4503599627370496"
    by (simp add: rne_def Let_def)
  finally show ?thesis by simp
qed

lemma fl_one_plus: "fl (1 + 1 / 2 ^ 54) = 1"
proof -
  have "fl (1 + 1 / 2 ^ 54) = of_int (rne ((1 + 1 / 2 ^ 54) / p2 (- 52))) * p2 (- 52)"
    by (rule fl_eval) simp_all
  also have "rne ((1 + 1 / 2 ^ 54) / p2 (- 52)) = 4503599627370496"
    by (simp add: rne_def Let_def)
  finally show ?thesis by simp
qed

lemma fl_MaxInt64: "fl 9223372036854775807 = 9223372036854775808"
proof -
  have "fl 9223372036854775807 = of_int (rne (9223372036854775807 / p2 10)) * p2 10"
    by (rule fl_eval) simp_all
  also have "rne (9223372036854775807 / p2 10) = 2 ^ 53"
    by (simp add: rne_def)
  finally show ?thesis by simp
qed

text \<open>
  Subtracting 1 from a float64 between 1 and \<open>2^53\<close> is exact; and for every float64
  \<open>q \<ge> 1\<close>, subtracting 1 and adding 1, each rounded, does not end above \<open>q\<close>.
\<close>

lemma is_float64_minus1:
  assumes f: "is_float64 q" and q1: "1 \<le> q" and q53: "q \<le> 2 ^ 53"
  shows "is_float64 (q - 1)"
proof -
  from f obtain m e where m: "\<bar>m\<bar> < 2 ^ 53" and e1: "- 1074 \<le> e" and e2: "e \<le> 971"
    and q: "q = of_int m * p2 e" unfolding is_float64_def by blast
  show ?thesis
  proof (cases "0 \<le> e")
    case True
    define K where "K = m * 2 ^ nat e"
    have qK: "q = of_int K" using True by (simp add: q K_def p2_nat)
    have "(of_int 1 :: real) \<le> of_int K" using q1 qK by simp
    then have K1: "1 \<le> K" by (simp only: of_int_le_iff)
    have "(of_int K :: real) \<le> of_int (2 ^ 53)" using q53 qK by simp
    then have K2: "K \<le> 2 ^ 53" by (simp only: of_int_le_iff)
    have "\<bar>K - 1\<bar> < 2 ^ 53" using K1 K2 by simp
    then have "is_float64 (of_int (K - 1))" by (rule is_float64_int)
    then show ?thesis using qK by simp
  next
    case False
    define M where "M = m - 2 ^ nat (- e)"
    have pe: "p2 (- e) = 2 ^ nat (- e)" using False by (simp add: p2_nat)
    have "p2 (- e) * p2 e = p2 (- e + e)" by (simp only: p2_add)
    then have one: "2 ^ nat (- e) * p2 e = 1" using pe by simp
    have "of_int M * p2 e = of_int m * p2 e - 2 ^ nat (- e) * p2 e"
      by (simp add: M_def algebra_simps)
    then have qM: "q - 1 = of_int M * p2 e" using one q by simp
    have "0 \<le> (q - 1) / p2 e" using q1 by simp
    then have "0 \<le> (of_int M :: real)" using qM by simp
    then have M0: "0 \<le> M" by simp
    have "M \<le> m" by (simp add: M_def)
    then have "\<bar>M\<bar> < 2 ^ 53" using M0 m by simp
    then show ?thesis using e1 e2 qM by (rule is_float64I)
  qed
qed

lemma float_ge_2p53_even:
  assumes f: "is_float64 q" and q: "2 ^ 53 \<le> q"
  shows "\<exists>n. q = 2 * of_int n"
proof -
  from f obtain m e where m: "\<bar>m\<bar> < 2 ^ 53" and qe: "q = of_int m * p2 e"
    unfolding is_float64_def by blast
  have e: "1 \<le> e"
  proof (rule ccontr)
    assume "\<not> 1 \<le> e"
    then have "e \<le> 0" by simp
    then have "p2 e \<le> p2 0" by (simp only: p2_le_iff)
    then have p1: "p2 e \<le> 1" by simp
    have "(of_int \<bar>m\<bar> :: real) < of_int (2 ^ 53)" using m by (simp only: of_int_less_iff)
    then have m': "\<bar>of_int m :: real\<bar> < 2 ^ 53" by simp
    have "q \<le> \<bar>of_int m\<bar> * p2 e" unfolding qe by (simp add: mult_right_mono)
    also have "\<dots> \<le> \<bar>of_int m\<bar> * 1" using p1 by (intro mult_left_mono) simp_all
    finally show False using m' q by simp
  qed
  have "p2 e = p2 (e - 1 + 1)" by simp
  also have "\<dots> = p2 (e - 1) * 2" by (simp only: p2_add p2_1)
  also have "p2 (e - 1) = 2 ^ nat (e - 1)" using e by (simp add: p2_nat)
  finally have "q = 2 * of_int (m * 2 ^ nat (e - 1))" by (simp add: qe)
  then show ?thesis by blast
qed

lemma fl_succ_same:
  assumes qf: "is_float64 q" and q: "2 ^ 53 < q" and z: "fl (q - 1) = q"
  shows "fl (q + 1) = q"
proof -
  define E where "E = expo q"
  have q0: "q \<noteq> 0" using q by auto
  have qp: "\<bar>q\<bar> = q" using q by simp
  have "p2 (1 + 52) \<le> \<bar>q\<bar>" using q by simp
  then have E1: "1 \<le> E" unfolding E_def by (rule expo_ge_of)
  have lo: "p2 (E + 52) \<le> q" using expo_lower [of q] q0 E1 qp by (simp add: E_def)
  have hi: "q < p2 (E + 53)" using expo_upper [of q] q0 qp by (simp add: E_def)
  define N where "N = rne (q / p2 E)"
  have "fl q = of_int N * p2 E" using q0 by (simp add: fl_def E_def N_def)
  then have qN: "q = of_int N * p2 E" using qf by (simp add: fl_exact)
  have "of_int N * p2 E < 2 ^ 53 * p2 E" using hi qN by (simp add: p2_add mult.commute)
  then have "(of_int N :: real) < of_int (2 ^ 53)" by simp
  then have "N < 2 ^ 53" by (simp only: of_int_less_iff)
  then have "N + 1 \<le> 2 ^ 53" by simp
  then have "(of_int (N + 1) :: real) \<le> of_int (2 ^ 53)" by (simp only: of_int_le_iff)
  then have N1: "(of_int N :: real) + 1 \<le> 2 ^ 53" by simp
  have pE: "2 \<le> p2 E"
  proof -
    have "p2 1 \<le> p2 E" using E1 by (simp only: p2_le_iff)
    then show ?thesis by simp
  qed
  have "q + 1 < q + p2 E" using pE by simp
  also have "\<dots> = (of_int N + 1) * p2 E" by (simp add: qN algebra_simps)
  also have "\<dots> \<le> 2 ^ 53 * p2 E" using N1 by (intro mult_right_mono) simp_all
  finally have hi1: "q + 1 < p2 (E + 53)" by (simp add: p2_add mult.commute)
  have lo1: "p2 (E + 52) \<le> \<bar>q + 1\<bar>" using lo q by simp
  have hi1': "\<bar>q + 1\<bar> < p2 (E + 53)" using hi1 q by simp
  have Eg: "- 1074 \<le> E" using E1 by simp
  have f1: "fl (q + 1) = of_int (rne ((q + 1) / p2 E)) * p2 E"
    using lo1 hi1' Eg by (rule fl_eval)
  have y: "(q + 1) / p2 E = of_int N + 1 / p2 E" by (simp add: qN add_divide_distrib)
  show ?thesis
  proof (cases "2 \<le> E")
    case True
    have "p2 2 \<le> p2 E" using True by (simp only: p2_le_iff)
    then have "4 \<le> p2 E" by simp
    then have "1 / p2 E \<le> 1 / 4" by (simp add: field_simps)
    then have "1 / p2 E < 1 / 2" by simp
    moreover have "0 \<le> 1 / p2 E" by simp
    ultimately have "rne (of_int N + 1 / p2 E) = N" by (intro rne_small)
    then show ?thesis using f1 y qN by simp
  next
    case False
    then have E: "E = 1" using E1 by simp
    have q2: "q = 2 * of_int N" using qN E by simp
    have "(2 ^ 53 :: real) < 2 * of_int N" using q q2 by simp
    then have "(of_int (2 ^ 52) :: real) < of_int N" by simp
    then have "2 ^ 52 < N" by (simp only: of_int_less_iff)
    then have "2 ^ 52 \<le> N - 1" by simp
    then have "(of_int (2 ^ 52) :: real) \<le> of_int (N - 1)" by (simp only: of_int_le_iff)
    then have lo2: "p2 (1 + 52) \<le> \<bar>q - 1\<bar>" using q2 by simp
    have hi2: "\<bar>q - 1\<bar> < p2 (1 + 53)" using hi E q by simp
    have e1: "fl (q - 1) = of_int (rne ((q - 1) / p2 1)) * p2 1"
      using lo2 hi2 by (rule fl_eval) simp
    have e2: "(q - 1) / p2 1 = of_int (N - 1) + 1 / 2" by (simp add: q2)
    have e3: "rne ((q - 1) / p2 1) = (if even (N - 1) then N - 1 else N)"
      unfolding e2 rne_half by simp
    have "fl (q - 1) = of_int (if even (N - 1) then N - 1 else N) * 2"
      unfolding e1 e3 by simp
    then have "(of_int (if even (N - 1) then N - 1 else N) :: real) = of_int N"
      using z q2 by simp
    then have "(if even (N - 1) then N - 1 else N) = N" by (simp only: of_int_eq_iff)
    then have ev: "even N" by (simp split: if_splits)
    have e4: "(q + 1) / p2 E = of_int N + 1 / 2" using y E by simp
    have "rne ((q + 1) / p2 E) = N" unfolding e4 rne_half using ev by simp
    then show ?thesis using f1 qN by simp
  qed
qed

section \<open>Facts about words, conversions and float64 operations\<close>

lemma sint64_range: "- (2 ^ 63) \<le> sint (w :: 64 word) \<and> sint w < 2 ^ 63"
  using sint_ge [of w] sint_lt [of w] by simp

lemma sint_of_int64:
  "- (2 ^ 63) \<le> k \<Longrightarrow> k < 2 ^ 63 \<Longrightarrow> sint (word_of_int k :: 64 word) = k"
  by (simp add: sint_sbintrunc' signed_take_bit_int_eq_self)

lemma sint_plus1: "sint (w :: 64 word) < 2 ^ 63 - 1 \<Longrightarrow> sint (w + 1) = sint w + 1"
  using sint64_range [of w] by (simp add: sint_word_ariths signed_take_bit_int_eq_self)

lemma sint_minus1: "- (2 ^ 63) < sint (w :: 64 word) \<Longrightarrow> sint (w - 1) = sint w - 1"
  using sint64_range [of w] by (simp add: sint_word_ariths signed_take_bit_int_eq_self)

lemma sint_diff64:
  "- (2 ^ 63) \<le> sint a - sint b \<Longrightarrow> sint a - sint b < 2 ^ 63
    \<Longrightarrow> sint (a - b :: 64 word) = sint a - sint b"
  by (simp add: sint_word_ariths signed_take_bit_int_eq_self)


lemma trunc_of_int [simp]: "trunc (of_int k) = k"
  by (simp add: trunc_def)

lemma trunc_mono: "x \<le> y \<Longrightarrow> trunc x \<le> trunc y"
proof (cases "0 \<le> x")
  case True
  assume "x \<le> y"
  with True show ?thesis by (simp add: trunc_def floor_mono)
next
  case False
  assume xy: "x \<le> y"
  show ?thesis
  proof (cases "0 \<le> y")
    case True
    have "\<lceil>x\<rceil> \<le> 0" using False by (simp add: ceiling_le_iff)
    moreover have "0 \<le> \<lfloor>y\<rfloor>" using True by simp
    ultimately have "\<lceil>x\<rceil> \<le> \<lfloor>y\<rfloor>" by linarith
    then show ?thesis using False True by (simp add: trunc_def)
  next
    case y: False
    then show ?thesis using False xy by (simp add: trunc_def ceiling_mono)
  qed
qed

lemma trunc_nonneg: "0 \<le> x \<Longrightarrow> 0 \<le> trunc x"
  by (simp add: trunc_def)

lemma trunc_less_int: "x < of_int k \<Longrightarrow> 0 \<le> x \<Longrightarrow> trunc x < k"
  by (simp add: trunc_def floor_less_iff)


lemma int64_in_range:
  "- (2 ^ 63) \<le> trunc x \<Longrightarrow> trunc x < 2 ^ 63
    \<Longrightarrow> sint (int64_of_float64 oor (Finite x)) = trunc x"
  by (simp add: sint_of_int64)

lemma overflow64_pos: "0 < overflow64"
  by (simp add: overflow64_def)

lemma is_float64_bound: "is_float64 x \<Longrightarrow> - overflow64 < x \<and> x < overflow64"
proof -
  assume "is_float64 x"
  then obtain m e where m: "\<bar>m\<bar> < 2 ^ 53" and e: "e \<le> 971" and x: "x = of_int m * p2 e"
    unfolding is_float64_def by blast
  have "\<bar>x\<bar> = of_int \<bar>m\<bar> * p2 e" by (simp add: x abs_mult)
  also have "\<dots> \<le> of_int \<bar>m\<bar> * p2 971"
    using e by (intro mult_left_mono) (simp_all only: p2_le_iff of_int_0_le_iff abs_ge_zero)
  also have "\<dots> < 2 ^ 53 * p2 971"
    using real_of_int_gt [OF m] by (intro mult_strict_right_mono) simp_all
  also have "\<dots> = overflow64" by (simp add: overflow64_def)
  finally show ?thesis by (simp add: abs_less_iff)
qed

lemma round64_exact: "is_float64 x \<Longrightarrow> round64 x = Finite x"
  using is_float64_bound [of x] by (simp add: round64_def fl_exact)

lemma round64_le:
  assumes x: "0 \<le> x" and B: "x \<le> B" and f: "is_float64 B"
  shows "round64 x = Finite (fl x) \<and> 0 \<le> fl x \<and> fl x \<le> B \<and> is_float64 (fl x)"
proof -
  have 1: "fl x \<le> B" using fl_mono [OF x B] f by (simp add: fl_exact)
  have 2: "0 \<le> fl x" using x by (rule fl_nonneg)
  have 3: "fl x < overflow64" using 1 is_float64_bound [OF f] by linarith
  then have "fl x < 2 ^ 1024" by (simp only: overflow64_def)
  with x have "is_float64 (fl x)" by (rule fl_is_float64)
  moreover have "0 < overflow64" by (simp add: overflow64_def)
  ultimately show ?thesis using 1 2 3 by (simp add: round64_def)
qed

lemma round64_nonneg:
  assumes x: "0 \<le> x"
  shows "round64 x = PosInf \<or> (round64 x = Finite (fl x) \<and> 0 \<le> fl x \<and> is_float64 (fl x))"
proof (cases "overflow64 \<le> fl x")
  case True
  then show ?thesis by (simp add: round64_def)
next
  case False
  have 0: "0 \<le> fl x" using x by (rule fl_nonneg)
  from False have "fl x < 2 ^ 1024" by (simp only: overflow64_def not_le)
  with x have "is_float64 (fl x)" by (rule fl_is_float64)
  moreover have "\<not> fl x \<le> - overflow64" using 0 overflow64_pos by linarith
  ultimately show ?thesis using False 0 by (simp add: round64_def)
qed

lemma round64_fl: "0 \<le> fl x \<Longrightarrow> fl x \<le> 2 ^ 63 \<Longrightarrow> round64 x = Finite (fl x)"
proof -
  assume a: "0 \<le> fl x" and b: "fl x \<le> 2 ^ 63"
  have "(2 ^ 63 :: real) < overflow64" unfolding overflow64_def by simp
  then have "\<not> overflow64 \<le> fl x" using b by linarith
  moreover have "\<not> fl x \<le> - overflow64" using a overflow64_pos by linarith
  ultimately show ?thesis by (simp add: round64_def)
qed

lemma round64_eval: "fl x = y \<Longrightarrow> 0 \<le> y \<Longrightarrow> y \<le> 2 ^ 63 \<Longrightarrow> round64 x = Finite y"
  using round64_fl [of x] by simp

lemma round64_numeral [simp]:
  "numeral n < (2 ^ 53 :: int) \<Longrightarrow> round64 (numeral n) = Finite (numeral n)"
  by (rule round64_exact, rule is_float64_numeral)

lemma round64_0 [simp]: "round64 0 = Finite 0"
  by (simp add: round64_exact)

lemma round64_1 [simp]: "round64 1 = Finite 1"
  by (simp add: round64_exact)

lemma MaxInt64_float64: "MaxInt64_float64 = Finite 9223372036854775808"
  by (simp add: MaxInt64_float64_def round64_def fl_MaxInt64 overflow64_def)

lemma alpha_val: "round64 (5 / 100) = Finite (3602879701896397 / 2 ^ 56)"
  using fl_one_twentieth by (rule round64_eval) simp_all

lemma fl_pred_succ:
  assumes qf: "is_float64 q" and q1: "1 \<le> q"
  shows "fl (fl (q - 1) + 1) \<le> q"
proof (cases "q \<le> 2 ^ 53")
  case True
  have "is_float64 (q - 1)" using qf q1 True by (rule is_float64_minus1)
  then have "fl (q - 1) = q - 1" by (rule fl_exact)
  then show ?thesis using qf by (simp add: fl_exact)
next
  case False
  then have q53: "2 ^ 53 < q" by simp
  define z where "z = fl (q - 1)"
  have x0: "0 \<le> q - 1" using q1 by simp
  have xq: "q - 1 \<le> q" by simp
  from round64_le [OF x0 xq qf] have zq: "z \<le> q" and zf: "is_float64 z"
    by (simp_all add: z_def)
  from float_ge_2p53_even [OF qf] q53 obtain b where b: "q = 2 * of_int b" by auto
  have "(of_int (2 ^ 52) :: real) < of_int b" using q53 b by simp
  then have "2 ^ 52 < b" by (simp only: of_int_less_iff)
  then have "2 ^ 52 + 1 \<le> b" by simp
  then have "(of_int (2 ^ 52 + 1) :: real) \<le> of_int b" by (simp only: of_int_le_iff)
  then have "2 ^ 53 + 1 \<le> q - 1" using b by simp
  then have "2 ^ 53 \<le> q - 1" by simp
  then have "fl (2 ^ 53) \<le> fl (q - 1)" by (intro fl_mono) simp_all
  moreover have "is_float64 (2 ^ 53)" by (rule is_float64I [of 1 53]) simp_all
  ultimately have z53: "2 ^ 53 \<le> z" by (simp add: z_def fl_exact)
  from float_ge_2p53_even [OF zf z53] obtain a where a: "z = 2 * of_int a" by auto
  show ?thesis
  proof (cases "z < q")
    case True
    then have "(of_int a :: real) < of_int b" using a b by simp
    then have "a < b" by (simp only: of_int_less_iff)
    then have "a + 1 \<le> b" by simp
    then have "(of_int (a + 1) :: real) \<le> of_int b" by (simp only: of_int_le_iff)
    then have "z + 1 \<le> q" using a b by simp
    moreover have "0 \<le> z + 1" using z53 by simp
    ultimately have "fl (z + 1) \<le> fl q" by (intro fl_mono)
    then show ?thesis using qf by (simp add: z_def fl_exact)
  next
    case False
    then have "fl (q - 1) = q" using zq by (simp add: z_def)
    with qf q53 have "fl (q + 1) = q" by (rule fl_succ_same)
    then show ?thesis using False zq by (simp add: z_def)
  qed
qed

lemma float64_of_int64_numeral [simp]:
  "numeral n < (2 ^ 53 :: int) \<Longrightarrow> float64_of_int64 (numeral n) = Finite (numeral n)"
proof -
  assume n: "numeral n < (2 ^ 53 :: int)"
  moreover have "(2 ^ 53 :: int) < 2 ^ 63" by simp
  ultimately have "(numeral n :: int) < 2 ^ 63" by (rule less_trans)
  then have "sint (numeral n :: 64 word) = numeral n"
    using sint_of_int64 [of "numeral n"] by simp
  moreover have "fl (numeral n) = numeral n" using n by (rule fl_numeral)
  ultimately show ?thesis by (simp add: float64_of_int64_def)
qed

lemma float64_of_int64_0 [simp]: "float64_of_int64 0 = Finite 0"
  by (simp add: float64_of_int64_def)

lemma float64_of_int64_1 [simp]: "float64_of_int64 1 = Finite 1"
  by (simp add: float64_of_int64_def)

lemma float64_of_int64_2p53_plus2:
  "float64_of_int64 9007199254740994 = Finite 9007199254740994"
proof -
  have "is_float64 9007199254740994" by (rule is_float64I [of 4503599627370497 1]) simp_all
  then have "fl 9007199254740994 = 9007199254740994" by (rule fl_exact)
  then show ?thesis by (simp add: float64_of_int64_def sint_of_int64)
qed

lemma float64_of_int64_nonneg:
  assumes w: "0 \<le> sint w"
  shows "\<exists>j. float64_of_int64 w = Finite (of_int j) \<and> 0 \<le> j \<and> j \<le> 2 ^ 63
    \<and> is_float64 (of_int j) \<and> (0 < sint w \<longrightarrow> 1 \<le> j) \<and> (sint w = 0 \<longrightarrow> j = 0)"
proof -
  define x :: real where "x = of_int (sint w)"
  have x0: "0 \<le> x" using w by (simp add: x_def del: of_int_sint)
  have "sint w \<le> 2 ^ 63" using sint64_range [of w] by simp
  then have "(of_int (sint w) :: real) \<le> of_int (2 ^ 63)" by (simp only: of_int_le_iff)
  then have x1: "x \<le> 2 ^ 63" by (simp add: x_def del: of_int_sint)
  from round64_le [OF x0 x1 is_float64_2p63]
  have f0: "0 \<le> fl x" and f1: "fl x \<le> 2 ^ 63" and ff: "is_float64 (fl x)" by simp_all
  obtain j where j: "fl x = of_int j" using fl_int [of "sint w"] unfolding x_def by blast
  have "0 \<le> j" using f0 j by simp
  moreover have "j \<le> 2 ^ 63"
  proof -
    have "(of_int j :: real) \<le> of_int (2 ^ 63)" using f1 j by simp
    then show ?thesis by (simp only: of_int_le_iff)
  qed
  moreover have "1 \<le> j" if "0 < sint w"
  proof -
    have "1 \<le> sint w" using that by simp
    then have "(of_int 1 :: real) \<le> of_int (sint w)" by (simp only: of_int_le_iff)
    then have "1 \<le> x" by (simp add: x_def del: of_int_sint)
    then have "fl 1 \<le> fl x" by (intro fl_mono) simp_all
    then have "(of_int 1 :: real) \<le> of_int j" using j by simp
    then show ?thesis by (simp only: of_int_le_iff)
  qed
  moreover have "j = 0" if "sint w = 0"
  proof -
    have "x = 0" using that by (simp add: x_def del: of_int_sint)
    then show ?thesis using j by simp
  qed
  ultimately show ?thesis using ff j
    unfolding float64_of_int64_def x_def by auto
qed

lemma float64_of_int64_mono:
  assumes a: "0 \<le> sint a" and ab: "sint a \<le> sint b"
  shows "\<exists>x y. float64_of_int64 a = Finite x \<and> float64_of_int64 b = Finite y \<and> x \<le> y"
proof -
  have "(of_int (sint a) :: real) \<le> of_int (sint b)" using ab by (simp only: of_int_le_iff)
  moreover have "(0::real) \<le> of_int (sint a)" using a by (simp del: of_int_sint)
  ultimately have "fl (of_int (sint a)) \<le> fl (of_int (sint b))" by (intro fl_mono)
  then show ?thesis by (simp add: float64_of_int64_def del: of_int_sint)
qed

lemma Pow2_nonneg_int:
  assumes i: "0 \<le> i"
  shows "Pow2 (Finite (of_int i)) = (if 1023 < i then PosInf else Finite (2 ^ nat i))"
proof -
  have "2 powr (of_int i :: real) = 2 ^ nat i"
    using i by (simp only: powr_real_of_int) simp
  moreover have "\<not> (of_int i :: real) < - 1074" using i by simp
  moreover have "(1023 < (of_int i :: real)) = (1023 < i)" by linarith
  ultimately show ?thesis by simp
qed

lemma sample_ok_Finite: "sample_ok (Finite p) = (is_float64 p \<and> 0 \<le> p \<and> p < 1)"
  by (auto simp: sample_ok_def)


lemma fle_Finite_bounds:
  "fle (Finite l) x \<Longrightarrow> fle x (Finite u) \<Longrightarrow> \<exists>v. x = Finite v \<and> l \<le> v \<and> v \<le> u"
  by (cases x) simp_all

text \<open>
  The jitter \<open>float64(baseDelay) * percentage\<close>, rounded, stays below \<open>float64(baseDelay)\<close>:
  a sample below 1 is at most \<open>1 - 2^-53\<close>.
\<close>

lemma jitter_bound:
  assumes B: "1 \<le> B" and pf: "is_float64 p" and p0: "0 \<le> p" and p1: "p < 1"
  shows "fl (B * p) \<le> B * (1 - 1 / 2 ^ 106)"
proof -
  define x where "x = B * p"
  have x0: "0 \<le> x" using B p0 by (simp add: x_def)
  have "p \<le> 1 - 1 / 2 ^ 53" using pf p1 by (rule float_lt1)
  then have "B * p \<le> B * (1 - 1 / 2 ^ 53)" using B by (intro mult_left_mono) simp_all
  then have xB: "x \<le> B * (1 - 1 / 2 ^ 53)" by (simp add: x_def)
  have Bb: "1 * (1 - 1 / 2 ^ 106) \<le> B * (1 - 1 / 2 ^ 106)"
    using B by (intro mult_right_mono) simp_all
  show ?thesis
  proof (cases "x \<le> 1 / 2")
    case True
    with x0 have "fl x \<le> fl (1 / 2)" by (rule fl_mono)
    then have "fl x \<le> 1 / 2" using is_float64_half by (simp add: fl_exact)
    moreover have "(1 / 2 :: real) \<le> 1 * (1 - 1 / 2 ^ 106)" by simp
    ultimately show ?thesis using Bb unfolding x_def by linarith
  next
    case False
    then have h: "1 / 2 < x" by simp
    have "p2 (- 1022) \<le> 1 / 2" by simp
    then have "p2 (- 1022) \<le> \<bar>x\<bar>" using h by linarith
    then have "\<bar>fl x - x\<bar> \<le> \<bar>x\<bar> / 2 ^ 53" by (rule fl_err_rel)
    moreover have "fl x - x \<le> \<bar>fl x - x\<bar>" by simp
    moreover have "\<bar>x\<bar> = x" using x0 by simp
    ultimately have "fl x \<le> x + x / 2 ^ 53" by linarith
    also have "\<dots> = x * (1 + 1 / 2 ^ 53)" by (simp add: algebra_simps)
    also have "\<dots> \<le> (B * (1 - 1 / 2 ^ 53)) * (1 + 1 / 2 ^ 53)"
      using xB by (intro mult_right_mono) simp_all
    also have "\<dots> = B * (1 - 1 / 2 ^ 106)" by (simp add: algebra_simps)
    finally show ?thesis by (simp add: x_def)
  qed
qed

section \<open>Variant A: the exponent\<close>

lemma new_A_simps [simp]:
  "exp_A (newItemExponentialFailureRateLimiterWithJitter_A b m s) = 0"
  "baseDelay_A (newItemExponentialFailureRateLimiterWithJitter_A b m s) = b"
  "maxDelay_A (newItemExponentialFailureRateLimiterWithJitter_A b m s) = m"
  "rd_A (newItemExponentialFailureRateLimiterWithJitter_A b m s) = s"
  by (simp_all add: newItemExponentialFailureRateLimiterWithJitter_A_def)

lemma Failure_funpow: "(Failure_A ^^ n) r = r\<lparr>exp_A := exp_A r + of_nat n\<rparr>"
  by (induction n) (simp_all add: Failure_A_def add.assoc)

lemma exp_A_When [simp]: "exp_A (snd (When_A oor r)) = exp_A r"
  by (simp add: When_A_def Let_def)

lemma step_A_exp:
  assumes "0 \<le> sint (exp_A r)" and "op = Failure_op_A \<longrightarrow> sint (exp_A r) < 2 ^ 63 - 1"
  shows "0 \<le> sint (exp_A (step_A oor r op)) \<and>
         sint (exp_A (step_A oor r op)) \<le> sint (exp_A r) + (if op = Failure_op_A then 1 else 0)"
  using assms
  by (cases op) (auto simp: Failure_A_def Success_A_def Exp_A_def sint_plus1 sint_minus1)

lemma run_A_exp:
  "0 \<le> sint (exp_A r) \<Longrightarrow> sint (exp_A r) + int (count_list ops Failure_op_A) < 2 ^ 63
   \<Longrightarrow> 0 \<le> sint (exp_A (run_A oor ops r)) \<and>
       sint (exp_A (run_A oor ops r)) \<le> sint (exp_A r) + int (count_list ops Failure_op_A)"
proof (induction ops arbitrary: r)
  case Nil
  then show ?case by (simp add: run_A_def)
next
  case (Cons op ops)
  have pre: "op = Failure_op_A \<longrightarrow> sint (exp_A r) < 2 ^ 63 - 1"
    using Cons.prems by auto
  note st = step_A_exp [OF Cons.prems(1) pre, of oor]
  have bound: "sint (exp_A (step_A oor r op)) + int (count_list ops Failure_op_A) < 2 ^ 63"
    using st Cons.prems(2) by (auto split: if_splits)
  have "0 \<le> sint (exp_A (run_A oor ops (step_A oor r op))) \<and>
        sint (exp_A (run_A oor ops (step_A oor r op)))
          \<le> sint (exp_A (step_A oor r op)) + int (count_list ops Failure_op_A)"
    using Cons.IH [of "step_A oor r op"] st bound by blast
  then show ?case
    using st by (auto simp: run_A_def split: if_splits)
qed

lemma run_A_Failures:
  "run_A oor (replicate n Failure_op_A) r = r\<lparr>exp_A := exp_A r + of_nat n\<rparr>"
  by (induction n arbitrary: r) (simp_all add: run_A_def Failure_A_def add.assoc)

text \<open>
  Claim C3, as amended. \<open>Failure()\<close> increases \<open>exp\<close> by exactly 1 in every state with
  \<open>exp < 2^63 - 1\<close>, the largest value of the 64-bit \<open>int\<close> (the code has no cap of its own);
  \<open>Success()\<close>, in every state with \<open>exp \<ge> 0\<close>, decreases \<open>exp\<close> by exactly 1, except that
  \<open>exp\<close> stays 0 when it is 0; and neither operation changes any other field.
\<close>

theorem Failure_Success_exp:
  "(sint (exp_A r) < 2 ^ 63 - 1 \<longrightarrow> sint (exp_A (Failure_A r)) = sint (exp_A r) + 1)
   \<and> Failure_A r = r\<lparr>exp_A := exp_A (Failure_A r)\<rparr>
   \<and> (0 \<le> sint (exp_A r) \<longrightarrow>
        sint (exp_A (Success_A r)) = (if sint (exp_A r) = 0 then 0 else sint (exp_A r) - 1))
   \<and> Success_A r = r\<lparr>exp_A := exp_A (Success_A r)\<rparr>"
  by (auto simp: Failure_A_def Success_A_def sint_plus1 sint_minus1)

theorem Failure_Success_exp_witness:
  "sint (exp_A (Failure_A \<lparr>exp_A = 3, baseDelay_A = 1000000000,
      maxDelay_A = 4000000000, rd_A = sconst (Finite 0)\<rparr>)) = 4 \<and>
   sint (exp_A (Success_A \<lparr>exp_A = 3, baseDelay_A = 1000000000,
      maxDelay_A = 4000000000, rd_A = sconst (Finite 0)\<rparr>)) = 2"
  using Failure_Success_exp [of "\<lparr>exp_A = 3, baseDelay_A = 1000000000,
      maxDelay_A = 4000000000, rd_A = sconst (Finite 0)\<rparr>"] by simp

text \<open>
  The claim as stated, for every state, fails at \<open>exp = 2^63 - 1\<close>, where the increment of
  \<open>Failure()\<close> wraps around to \<open>-2^63\<close>, and at a negative \<open>exp\<close>, which \<open>Success()\<close> leaves
  as it is.
\<close>

theorem Failure_wraps_at_max_int:
  "sint (exp_A \<lparr>exp_A = 9223372036854775807, baseDelay_A = 1000000000,
      maxDelay_A = 4000000000, rd_A = sconst (Finite 0)\<rparr>) = 9223372036854775807 \<and>
   sint (exp_A (Failure_A \<lparr>exp_A = 9223372036854775807, baseDelay_A = 1000000000,
      maxDelay_A = 4000000000, rd_A = sconst (Finite 0)\<rparr>)) = - 9223372036854775808 \<and>
   sint (exp_A (Success_A \<lparr>exp_A = - 1, baseDelay_A = 1000000000,
      maxDelay_A = 4000000000, rd_A = sconst (Finite 0)\<rparr>)) = - 1"
  by (simp add: Failure_A_def Success_A_def)

text \<open>
  Claim C4, as amended. A fresh instance has \<open>exp = 0\<close>; \<open>exp \<ge> 0\<close> is preserved by \<open>When\<close>,
  \<open>Success\<close> and \<open>Exp\<close> in every state and by \<open>Failure\<close> in every state with
  \<open>exp < 2^63 - 1\<close>; so every state reached from a fresh instance by operations of which
  fewer than \<open>2^63\<close> are \<open>Failure\<close> calls has a non-negative exponent.
\<close>

theorem exp_A_nonneg:
  assumes "int (count_list ops Failure_op_A) < 2 ^ 63"
  shows "exp_A (newItemExponentialFailureRateLimiterWithJitter_A b m seeded) = 0
       \<and> 0 \<le> sint (exp_A (run_A oor ops
               (newItemExponentialFailureRateLimiterWithJitter_A b m seeded)))
       \<and> (0 \<le> sint (exp_A r) \<and> (op = Failure_op_A \<longrightarrow> sint (exp_A r) < 2 ^ 63 - 1)
            \<longrightarrow> 0 \<le> sint (exp_A (step_A oor r op)))"
  using run_A_exp [of "newItemExponentialFailureRateLimiterWithJitter_A b m seeded" ops oor]
    step_A_exp [of r op oor] assms
  by (simp add: newItemExponentialFailureRateLimiterWithJitter_A_def)

theorem exp_A_nonneg_witness:
  "0 \<le> sint (exp_A (run_A oor_amd64
      [Failure_op_A, When_op_A, Success_op_A, Success_op_A, Exp_op_A, Failure_op_A]
      (newItemExponentialFailureRateLimiterWithJitter_A 1000000000 4000000000
        (sconst (Finite 0)))))"
  using exp_A_nonneg [of
      "[Failure_op_A, When_op_A, Success_op_A, Success_op_A, Exp_op_A, Failure_op_A]"
      1000000000 4000000000 "sconst (Finite 0)" oor_amd64]
  by simp

text \<open>
  The claim as stated fails for the state a fresh instance reaches by \<open>2^63\<close> calls of
  \<open>Failure()\<close>: its exponent is \<open>-2^63\<close>.
\<close>

theorem exp_A_negative_after_wrap:
  "sint (exp_A (run_A oor_amd64 (replicate 9223372036854775808 Failure_op_A)
      (newItemExponentialFailureRateLimiterWithJitter_A 1000000000 4000000000
        (sconst (Finite 0)))))
   = - 9223372036854775808"
  by (simp add: run_A_Failures newItemExponentialFailureRateLimiterWithJitter_A_def)

section \<open>Variant A: the delay\<close>

text \<open>
  \<open>When()\<close> in terms of the local variables. For \<open>exp \<ge> 0\<close> and \<open>baseDelay \<ge> 0\<close> the delay
  is \<open>+Inf\<close>, or a float64 with an integral value that is not below \<open>float64(baseDelay)\<close>, or
  NaN, which takes \<open>baseDelay = 0\<close> and \<open>exp > 1023\<close> (zero times \<open>+Inf\<close>).
\<close>

lemma When_A_alt:
  "When_A oor r =
     (if fgt (delay_A r) MaxInt64_float64
         \<or> sint (maxDelay_A r) < sint (int64_of_float64 oor (delay_A r))
      then (maxDelay_A r, r)
      else if fle (backoff_A r) (Finite 0) then (0, r\<lparr>rd_A := stl (rd_A r)\<rparr>)
      else (int64_of_float64 oor (backoff_A r), r\<lparr>rd_A := stl (rd_A r)\<rparr>))"
  by (simp add: When_A_def Let_def backoff_A_def jitter_A_def)

lemma When_A_spec_unclamped:
  "\<not> spec_clamps_A r \<Longrightarrow>
   When_A_spec oor r =
     (if fle (backoff_A r) (Finite 0) then 0 else int64_of_float64 oor (backoff_A r),
      r\<lparr>rd_A := stl (rd_A r)\<rparr>)"
  by (simp add: When_A_spec_def Let_def backoff_A_def jitter_A_def)

lemma delay_A_shape:
  assumes e: "0 \<le> sint (exp_A r)" and b: "0 \<le> sint (baseDelay_A r)"
  shows "(delay_A r = NaN \<and> sint (baseDelay_A r) = 0) \<or> delay_A r = PosInf
    \<or> (\<exists>k. delay_A r = Finite (of_int k) \<and> 0 \<le> k \<and> is_float64 (of_int k)
          \<and> (\<exists>j. float64_of_int64 (baseDelay_A r) = Finite (of_int j) \<and> j \<le> k))"
proof -
  from float64_of_int64_nonneg [OF b] obtain j where
    fb: "float64_of_int64 (baseDelay_A r) = Finite (of_int j)" and j0: "0 \<le> j"
    and jf: "is_float64 (of_int j)" and j1: "0 < sint (baseDelay_A r) \<longrightarrow> 1 \<le> j"
    by blast
  from float64_of_int64_nonneg [OF e] obtain i where
    fe: "float64_of_int64 (exp_A r) = Finite (of_int i)" and i0: "0 \<le> i"
    by blast
  show ?thesis
  proof (cases "1023 < i")
    case True
    then have "delay_A r = (if j = 0 then NaN else PosInf)"
      using j0 i0 by (simp add: delay_A_def fb fe Pow2_nonneg_int del: Pow2.simps)
    moreover have "sint (baseDelay_A r) = 0" if "j = 0" using that j1 b by linarith
    ultimately show ?thesis by auto
  next
    case False
    define K where "K = j * 2 ^ nat i"
    have K0: "0 \<le> K" using j0 by (simp add: K_def)
    have jK: "j \<le> K"
    proof -
      have "j * 1 \<le> j * 2 ^ nat i" using j0 by (intro mult_left_mono) simp_all
      then show ?thesis by (simp add: K_def)
    qed
    have d: "delay_A r = round64 (of_int K)"
      using False i0 by (simp add: delay_A_def fb fe Pow2_nonneg_int K_def del: Pow2.simps)
    have x0: "0 \<le> (of_int K :: real)" using K0 by simp
    from round64_nonneg [OF x0] show ?thesis
    proof
      assume "round64 (real_of_int K) = PosInf"
      then show ?thesis using d by simp
    next
      assume a: "round64 (real_of_int K) = Finite (fl (real_of_int K)) \<and>
        0 \<le> fl (real_of_int K) \<and> is_float64 (fl (real_of_int K))"
      obtain k where k: "fl (of_int K) = of_int k" using fl_int [of K] by blast
      have "0 \<le> k" using a k by simp
      moreover have "is_float64 (of_int k)" using a k by simp
      moreover have "j \<le> k"
      proof -
        have "(of_int j :: real) \<le> of_int K" using jK by (simp only: of_int_le_iff)
        moreover have "0 \<le> (of_int j :: real)" using j0 by simp
        ultimately have "fl (of_int j) \<le> fl (of_int K)" by (intro fl_mono)
        then have "(of_int j :: real) \<le> of_int k" using k jf by (simp add: fl_exact)
        then show ?thesis by (simp only: of_int_le_iff)
      qed
      ultimately show ?thesis using d a k fb by auto
    qed
  qed
qed

text \<open>
  Claim C2, as amended. \<open>When()\<close> computes \<open>delay = float64(baseDelay) * 2^exp\<close>. The
  statement is for the states with \<open>exp \<ge> 0\<close> and \<open>baseDelay \<ge> 0\<close> whose delay is a number
  (not NaN) other than exactly \<open>2^63\<close>. When the delay is out of the range of the duration
  type (\<open>2^63\<close> and above, \<open>+Inf\<close> included) or above \<open>maxDelay\<close>, \<open>When()\<close> returns
  \<open>maxDelay\<close> itself at once and leaves the state as it is: no percentage is sampled and no
  jitter is subtracted. Otherwise it does what the specification's algorithm does: it
  samples a percentage, subtracts \<open>jitter = float64(baseDelay) * percentage\<close> and returns zero
  when \<open>backoff \<le> 0\<close> and the truncated backoff otherwise. Nothing is stated for a delay of
  exactly \<open>2^63\<close>, which the overflow guard of the code lets through, nor for a NaN delay.
\<close>

theorem When_A_early_return:
  assumes e: "0 \<le> sint (exp_A r)" and b: "0 \<le> sint (baseDelay_A r)"
    and n: "delay_A r \<noteq> NaN" and m: "delay_A r \<noteq> Finite (2 ^ 63)"
  shows "When_A oor r = (if spec_clamps_A r then (maxDelay_A r, r) else When_A_spec oor r)"
proof -
  from delay_A_shape [OF e b] n
  have "delay_A r = PosInf \<or> (\<exists>k. delay_A r = Finite (of_int k) \<and> 0 \<le> k)" by blast
  then show ?thesis
  proof
    assume d: "delay_A r = PosInf"
    then have "spec_clamps_A r" by (simp add: spec_clamps_A_def)
    moreover have "fgt (delay_A r) MaxInt64_float64" using d by (simp add: fgt_def MaxInt64_float64)
    ultimately show ?thesis by (simp add: When_A_alt)
  next
    assume "\<exists>k. delay_A r = Finite (of_int k) \<and> 0 \<le> k"
    then obtain k where d: "delay_A r = Finite (of_int k)" and k0: "0 \<le> k" by blast
    have k63: "k \<noteq> 2 ^ 63" using m d by auto
    show ?thesis
    proof (cases "2 ^ 63 < k")
      case True
      then have "(of_int (2 ^ 63) :: real) < of_int k" by (simp only: of_int_less_iff)
      then have g: "(2 ^ 63 :: real) < of_int k" by simp
      then have "spec_clamps_A r" using d by (simp add: spec_clamps_A_def)
      moreover have "fgt (delay_A r) MaxInt64_float64"
        using d g by (simp add: fgt_def MaxInt64_float64)
      ultimately show ?thesis by (simp add: When_A_alt)
    next
      case False
      then have lt: "k < 2 ^ 63" using k63 by simp
      then have "(of_int k :: real) < of_int (2 ^ 63)" by (simp only: of_int_less_iff)
      then have g: "(of_int k :: real) < 2 ^ 63" by simp
      have ng: "\<not> fgt (delay_A r) MaxInt64_float64"
        using d g by (simp add: fgt_def MaxInt64_float64)
      have s: "sint (int64_of_float64 oor (delay_A r)) = k"
        using k0 lt d int64_in_range [of "of_int k" oor] by simp
      have c: "spec_clamps_A r = (sint (maxDelay_A r) < k)"
        using d g by (simp add: spec_clamps_A_def del: of_int_sint)
      show ?thesis
      proof (cases "sint (maxDelay_A r) < k")
        case True
        then show ?thesis using c s by (simp add: When_A_alt)
      next
        case False
        then have "\<not> spec_clamps_A r" using c by simp
        then show ?thesis using False s ng by (simp add: When_A_alt When_A_spec_unclamped)
      qed
    qed
  qed
qed

text \<open>
  Three states with four seconds as \<open>maxDelay\<close>: a clamped delay (one second, \<open>exp = 3\<close>),
  an unclamped one (one second, \<open>exp = 1\<close>, sample \<open>1/2\<close>: 1.5 seconds), and the branch
  \<open>backoff \<le> 0\<close> (\<open>baseDelay = 0\<close>: the result is zero).
\<close>

theorem When_A_early_return_witness:
  "When_A oor_amd64 \<lparr>exp_A = 3, baseDelay_A = 1000000000, maxDelay_A = 4000000000,
       rd_A = Finite (1 / 2) ## sconst (Finite 0)\<rparr>
     = (4000000000, \<lparr>exp_A = 3, baseDelay_A = 1000000000, maxDelay_A = 4000000000,
       rd_A = Finite (1 / 2) ## sconst (Finite 0)\<rparr>)
   \<and> When_A oor_amd64 \<lparr>exp_A = 1, baseDelay_A = 1000000000, maxDelay_A = 4000000000,
       rd_A = Finite (1 / 2) ## sconst (Finite 0)\<rparr>
     = (1500000000, \<lparr>exp_A = 1, baseDelay_A = 1000000000, maxDelay_A = 4000000000,
       rd_A = sconst (Finite 0)\<rparr>)
   \<and> When_A oor_amd64 \<lparr>exp_A = 0, baseDelay_A = 0, maxDelay_A = 4000000000,
       rd_A = Finite (1 / 2) ## sconst (Finite 0)\<rparr>
     = (0, \<lparr>exp_A = 0, baseDelay_A = 0, maxDelay_A = 4000000000,
       rd_A = sconst (Finite 0)\<rparr>)"
  using When_A_early_return [of "\<lparr>exp_A = 3, baseDelay_A = 1000000000, maxDelay_A = 4000000000,
       rd_A = Finite (1 / 2) ## sconst (Finite 0)\<rparr>" oor_amd64]
    When_A_early_return [of "\<lparr>exp_A = 1, baseDelay_A = 1000000000, maxDelay_A = 4000000000,
       rd_A = Finite (1 / 2) ## sconst (Finite 0)\<rparr>" oor_amd64]
    When_A_early_return [of "\<lparr>exp_A = 0, baseDelay_A = 0, maxDelay_A = 4000000000,
       rd_A = Finite (1 / 2) ## sconst (Finite 0)\<rparr>" oor_amd64]
  by (simp add: delay_A_def spec_clamps_A_def When_A_spec_def fsub_def trunc_def)

text \<open>
  The claim as stated fails after three failures with one second and four seconds: the
  delay of eight seconds is clamped, the code returns four seconds and leaves the random
  source untouched, where the specification's algorithm subtracts the jitter of half a second
  and consumes the sample.
\<close>

theorem When_A_clamp_without_jitter:
  "When_A oor_amd64 ((Failure_A ^^ 3)
       (newItemExponentialFailureRateLimiterWithJitter_A 1000000000 4000000000
          (Finite (1 / 2) ## sconst (Finite 0))))
     = (4000000000, \<lparr>exp_A = 3, baseDelay_A = 1000000000, maxDelay_A = 4000000000,
          rd_A = Finite (1 / 2) ## sconst (Finite 0)\<rparr>)
   \<and> When_A_spec oor_amd64 ((Failure_A ^^ 3)
       (newItemExponentialFailureRateLimiterWithJitter_A 1000000000 4000000000
          (Finite (1 / 2) ## sconst (Finite 0))))
     = (3500000000, \<lparr>exp_A = 3, baseDelay_A = 1000000000, maxDelay_A = 4000000000,
          rd_A = sconst (Finite 0)\<rparr>)"
  by (simp add: Failure_funpow newItemExponentialFailureRateLimiterWithJitter_A_def
    When_A_def When_A_spec_def spec_clamps_A_def delay_A_def MaxInt64_float64 fgt_def fsub_def
    trunc_def sint_of_int64)

text \<open>
  With \<open>baseDelay > 0\<close>, \<open>exp \<ge> 0\<close> and a sample below 1, the jitter is a float64 below
  \<open>float64(baseDelay)\<close>, the delay is not below it, and the backoff is positive.
\<close>

lemma backoff_A_shape:
  assumes b: "0 < sint (baseDelay_A r)" and e: "0 \<le> sint (exp_A r)"
    and s: "sample_ok (shd (rd_A r))"
  shows "\<exists>j jit. float64_of_int64 (baseDelay_A r) = Finite (of_int j) \<and> 1 \<le> j \<and> j \<le> 2 ^ 63
      \<and> jitter_A r = Finite jit \<and> 0 \<le> jit \<and> jit < of_int j \<and> is_float64 jit
      \<and> (delay_A r = PosInf \<and> backoff_A r = PosInf
          \<or> (\<exists>k x. delay_A r = Finite (of_int k) \<and> j \<le> k \<and> is_float64 (of_int k)
                \<and> backoff_A r = Finite x \<and> 0 < x \<and> x \<le> of_int k))"
proof -
  from b have b0: "0 \<le> sint (baseDelay_A r)" by simp
  from float64_of_int64_nonneg [OF b0] b obtain j where
    fb: "float64_of_int64 (baseDelay_A r) = Finite (of_int j)" and j1: "1 \<le> j"
    and j63: "j \<le> 2 ^ 63" and jf: "is_float64 (of_int j)"
    by blast
  from s obtain p where p: "shd (rd_A r) = Finite p" and pf: "is_float64 p"
    and p0: "0 \<le> p" and p1: "p < 1"
    unfolding sample_ok_def by blast
  define B :: real where "B = of_int j"
  have B1: "1 \<le> B" using j1 unfolding B_def by simp
  define jit where "jit = fl (B * p)"
  have x0: "0 \<le> B * p" using B1 p0 by simp
  have "B * p \<le> B * 1" using B1 p1 by (intro mult_left_mono) simp_all
  then have xB: "B * p \<le> B" by simp
  from round64_le [OF x0 xB] jf
  have rj: "round64 (B * p) = Finite jit" and jit0: "0 \<le> jit" and jitf: "is_float64 jit"
    by (simp_all add: B_def jit_def)
  have jit: "jitter_A r = Finite jit" using rj by (simp add: jitter_A_def fb p B_def)
  have jb: "jit \<le> B * (1 - 1 / 2 ^ 106)"
    unfolding jit_def using B1 pf p0 p1 by (rule jitter_bound)
  have "B * (1 - 1 / 2 ^ 106) = B - B / 2 ^ 106" by (simp add: algebra_simps)
  moreover have "1 / 2 ^ 106 \<le> B / 2 ^ 106" using B1 by (simp add: divide_right_mono)
  ultimately have gap: "jit \<le> B - 1 / 2 ^ 106" using jb by linarith
  then have jlt: "jit < B" by simp
  from delay_A_shape [OF e b0] b fb
  have "delay_A r = PosInf
    \<or> (\<exists>k. delay_A r = Finite (of_int k) \<and> is_float64 (of_int k) \<and> j \<le> k)"
    by auto
  then show ?thesis
  proof
    assume d: "delay_A r = PosInf"
    then have "backoff_A r = PosInf" using jit by (simp add: backoff_A_def fsub_def)
    then show ?thesis using fb j1 j63 jit jit0 jlt jitf d unfolding B_def by blast
  next
    assume "\<exists>k. delay_A r = Finite (of_int k) \<and> is_float64 (of_int k) \<and> j \<le> k"
    then obtain k where d: "delay_A r = Finite (of_int k)" and kf: "is_float64 (of_int k)"
      and jk: "j \<le> k" by blast
    have Bk: "B \<le> of_int k" unfolding B_def using jk by simp
    define y where "y = of_int k - jit"
    have y0: "0 \<le> y" using Bk jlt by (simp add: y_def)
    have yk: "y \<le> of_int k" using jit0 by (simp add: y_def)
    from round64_le [OF y0 yk kf]
    have ry: "round64 y = Finite (fl y)" and yle: "fl y \<le> of_int k" by simp_all
    have "1 / 2 ^ 106 \<le> y" using gap Bk unfolding y_def by linarith
    then have "fl (1 / 2 ^ 106) \<le> fl y" by (intro fl_mono) simp_all
    then have "1 / 2 ^ 106 \<le> fl y" using is_float64_2m106 by (simp add: fl_exact)
    moreover have "(0::real) < 1 / 2 ^ 106" by simp
    ultimately have ypos: "0 < fl y" by linarith
    have "backoff_A r = Finite (fl y)"
      using ry by (simp add: backoff_A_def fsub_def d jit y_def)
    then show ?thesis using fb j1 j63 jit jit0 jlt jitf d jk kf ypos yle unfolding B_def by blast
  qed
qed





text \<open>
  Returned delays lie in \<open>[0, maxDelay]\<close> whenever the computed delay is not exactly \<open>2^63\<close>.
\<close>

lemma When_A_range:
  assumes b: "0 < sint (baseDelay_A r)" and m: "sint (baseDelay_A r) \<le> sint (maxDelay_A r)"
    and e: "0 \<le> sint (exp_A r)" and s: "sample_ok (shd (rd_A r))"
    and ne: "delay_A r \<noteq> Finite (2 ^ 63)"
  shows "0 \<le> sint (fst (When_A oor r)) \<and> sint (fst (When_A oor r)) \<le> sint (maxDelay_A r)"
proof (cases "fgt (delay_A r) MaxInt64_float64
    \<or> sint (maxDelay_A r) < sint (int64_of_float64 oor (delay_A r))")
  case True
  then have "When_A oor r = (maxDelay_A r, r)" by (simp add: When_A_alt)
  then show ?thesis using b m by simp
next
  case False
  from backoff_A_shape [OF b e s] obtain j where
    c: "delay_A r = PosInf \<and> backoff_A r = PosInf
          \<or> (\<exists>k x. delay_A r = Finite (of_int k) \<and> j \<le> k \<and> is_float64 (of_int k)
                \<and> backoff_A r = Finite x \<and> 0 < x \<and> x \<le> of_int k)"
    by blast
  have "delay_A r \<noteq> PosInf" using False by (auto simp: fgt_def MaxInt64_float64)
  with c obtain k x where d: "delay_A r = Finite (of_int k)" and bx: "backoff_A r = Finite x"
    and x0: "0 < x" and xk: "x \<le> of_int k" by blast
  have "\<not> (2 ^ 63 :: real) < of_int k" using False d by (simp add: fgt_def MaxInt64_float64)
  then have "(of_int k :: real) \<le> of_int (2 ^ 63)" by simp
  then have "k \<le> 2 ^ 63" by (simp only: of_int_le_iff)
  moreover have "k \<noteq> 2 ^ 63" using ne d by auto
  ultimately have k63: "k < 2 ^ 63" by simp
  have t0: "0 \<le> trunc x" using x0 by (simp add: trunc_nonneg)
  have "trunc x \<le> trunc (of_int k)" using xk by (rule trunc_mono)
  then have tk: "trunc x \<le> k" by simp
  have k0: "0 \<le> k" using t0 tk by simp
  have sd: "sint (int64_of_float64 oor (delay_A r)) = k"
    using k0 k63 d int64_in_range [of "of_int k" oor] by simp
  then have km: "k \<le> sint (maxDelay_A r)" using False by simp
  have sx: "sint (int64_of_float64 oor (Finite x)) = trunc x"
    using t0 tk k63 int64_in_range [of x oor] by simp
  have "fst (When_A oor r) = int64_of_float64 oor (Finite x)"
    using False bx x0 by (simp add: When_A_alt)
  then show ?thesis using sx t0 tk km by simp
qed

text \<open>
  The rounding of the jitter is visible in the result. A fresh instance with one second as
  \<open>baseDelay\<close> and the sample \<open>0.1\<close> (the float64 nearest to it, which is above \<open>1/10\<close>)
  computes a jitter that rounds to \<open>10^8\<close> nanoseconds exactly and returns \<open>900000000\<close>;
  without the rounding of the product the backoff would be just below that and truncate to
  \<open>899999999\<close>.
\<close>

lemma When_A_rounds:
  "fst (When_A oor (newItemExponentialFailureRateLimiterWithJitter_A 1000000000 4000000000
      (sconst (round64 (1 / 10))))) = 900000000
   \<and> trunc (1000000000 - 1000000000 * fl (1 / 10)) = 899999999"
proof -
  let ?r = "newItemExponentialFailureRateLimiterWithJitter_A 1000000000 4000000000
      (sconst (round64 (1 / 10)))"
  have p: "round64 (1 / 10) = Finite (3602879701896397 / 2 ^ 55)"
    using fl_one_tenth by (rule round64_eval) simp_all
  have d: "delay_A ?r = Finite 1000000000" by (simp add: delay_A_def)
  have "jitter_A ?r = round64 (1000000000 * (3602879701896397 / 2 ^ 55))"
    unfolding jitter_A_def by (simp add: p)
  also have "\<dots> = Finite 100000000"
    using fl_jitter_one_tenth by (rule round64_eval) simp_all
  finally have j: "jitter_A ?r = Finite 100000000" .
  have "backoff_A ?r = fsub (Finite 1000000000) (Finite 100000000)"
    by (simp only: backoff_A_def d j)
  also have "\<dots> = Finite 900000000" by (simp add: fsub_def)
  finally have bk: "backoff_A ?r = Finite 900000000" .
  have 1: "fst (When_A oor ?r) = 900000000" unfolding When_A_alt d bk
    by (simp add: fgt_def MaxInt64_float64 trunc_def sint_of_int64)
  have 2: "trunc (1000000000 - 1000000000 * fl (1 / 10)) = 899999999"
    unfolding fl_one_tenth by (simp add: trunc_def)
  show ?thesis using 1 2 by simp
qed

text \<open>
  Claim C1, at the input where the code breaks it. With \<open>baseDelay = 2^30 ns\<close>,
  \<open>maxDelay = 2^32 ns\<close> and 33 failures the delay is exactly \<open>2^63\<close>. The guard
  \<open>delay > math.MaxInt64\<close> compares with \<open>2^63\<close> and does not fire, \<open>int64(delay)\<close> is out of
  range, on amd64 \<open>-2^63\<close>, which is not above \<open>maxDelay\<close>, and \<open>When()\<close> returns
  \<open>2^63 - 2^29\<close> nanoseconds for the sample \<open>1/2\<close>: far more than \<open>maxDelay\<close>. Every value
  of this run is a float64, so no operation of it rounds.
\<close>

theorem When_A_exceeds_maxDelay:
  "sint (fst (When_A oor_amd64 ((Failure_A ^^ 33)
      (newItemExponentialFailureRateLimiterWithJitter_A 1073741824 4294967296
        (sconst (Finite (1 / 2)))))))
     = 9223372036317904896
   \<and> sint (maxDelay_A ((Failure_A ^^ 33)
      (newItemExponentialFailureRateLimiterWithJitter_A 1073741824 4294967296
        (sconst (Finite (1 / 2))))))
     = 4294967296
   \<and> sint (maxDelay_A ((Failure_A ^^ 33)
      (newItemExponentialFailureRateLimiterWithJitter_A 1073741824 4294967296
        (sconst (Finite (1 / 2))))))
     < sint (fst (When_A oor_amd64 ((Failure_A ^^ 33)
      (newItemExponentialFailureRateLimiterWithJitter_A 1073741824 4294967296
        (sconst (Finite (1 / 2)))))))"
proof -
  have 1: "round64 9223372036854775808 = Finite 9223372036854775808"
    by (rule round64_exact, rule is_float64I [of 1 63]) simp_all
  have 2: "round64 9223372036317904896 = Finite 9223372036317904896"
    by (rule round64_exact, rule is_float64I [of 17179869183 29]) simp_all
  show ?thesis
    by (simp add: Failure_funpow newItemExponentialFailureRateLimiterWithJitter_A_def
      When_A_def delay_A_def MaxInt64_float64 fgt_def fsub_def oor_amd64_def trunc_def 1 2)
qed

text \<open>
For the sample 0 the same state returns a negative duration.
\<close>

lemma When_A_negative:
  "sint (fst (When_A oor_amd64 ((Failure_A ^^ 33)
      (newItemExponentialFailureRateLimiterWithJitter_A 1073741824 4294967296
        (sconst (Finite 0))))))
     = - 9223372036854775808"
proof -
  have 1: "round64 9223372036854775808 = Finite 9223372036854775808"
    by (rule round64_exact, rule is_float64I [of 1 63]) simp_all
  show ?thesis
    by (simp add: Failure_funpow newItemExponentialFailureRateLimiterWithJitter_A_def
      When_A_def delay_A_def MaxInt64_float64 fgt_def fsub_def oor_amd64_def trunc_def 1)
qed

text \<open>
Where the conversion saturates, the same state returns \<open>maxDelay\<close>.
\<close>

lemma When_A_saturating:
  "fst (When_A oor_saturate ((Failure_A ^^ 33)
      (newItemExponentialFailureRateLimiterWithJitter_A 1073741824 4294967296
        (sconst (Finite (1 / 2))))))
     = 4294967296"
proof -
  have 1: "round64 9223372036854775808 = Finite 9223372036854775808"
    by (rule round64_exact, rule is_float64I [of 1 63]) simp_all
  show ?thesis
    by (simp add: Failure_funpow newItemExponentialFailureRateLimiterWithJitter_A_def
      When_A_def delay_A_def MaxInt64_float64 fgt_def fsub_def trunc_def sint_of_int64 1)
qed

section \<open>Variant B\<close>

lemma new_B_simps [simp]:
  "RateLimiter (newItemExponentialFailureRateLimiterWithJitter_B q b m a s) = q"
  "baseDelay_B (newItemExponentialFailureRateLimiterWithJitter_B q b m a s) = b"
  "maxDelay_B (newItemExponentialFailureRateLimiterWithJitter_B q b m a s) = m"
  "alpha (newItemExponentialFailureRateLimiterWithJitter_B q b m a s) = a"
  "scaleFactor (newItemExponentialFailureRateLimiterWithJitter_B q b m a s) = Finite 1"
  "failureRate (newItemExponentialFailureRateLimiterWithJitter_B q b m a s) = Finite 0"
  "rd_B (newItemExponentialFailureRateLimiterWithJitter_B q b m a s) = s"
  by (simp_all add: newItemExponentialFailureRateLimiterWithJitter_B_def)

lemma When_B_frame [simp]:
  "baseDelay_B (snd (When_B oor iw r item)) = baseDelay_B r"
  "maxDelay_B (snd (When_B oor iw r item)) = maxDelay_B r"
  "alpha (snd (When_B oor iw r item)) = alpha r"
  "failureRate (snd (When_B oor iw r item)) = failureRate r"
  "scaleFactor (snd (When_B oor iw r item)) = scaleFactor r"
  by (simp_all add: When_B_def Let_def split: prod.splits)

lemma Success_B_frame [simp]:
  "baseDelay_B (Success_B r s) = baseDelay_B r"
  "maxDelay_B (Success_B r s) = maxDelay_B r"
  "alpha (Success_B r s) = alpha r"
  by (simp_all add: Success_B_def Let_def)

lemma step_B_frame [simp]:
  "baseDelay_B (step_B oor iw r op) = baseDelay_B r"
  "maxDelay_B (step_B oor iw r op) = maxDelay_B r"
  "alpha (step_B oor iw r op) = alpha r"
  by (cases op; simp add: ScaleFactor_B_def)+

lemma Forget_B_frame [simp]:
  "baseDelay_B (Forget_B ifg r item) = baseDelay_B r"
  "maxDelay_B (Forget_B ifg r item) = maxDelay_B r"
  "alpha (Forget_B ifg r item) = alpha r"
  "failureRate (Forget_B ifg r item) = failureRate r"
  "scaleFactor (Forget_B ifg r item) = scaleFactor r"
  by (simp_all add: Forget_B_def)

lemma quotient_B_frame [simp]:
  "quotient_B (snd (When_B oor iw r item)) = quotient_B r"
  "quotient_B (Success_B r s) = quotient_B r"
  "quotient_B (step_B oor iw r op) = quotient_B r"
  "quotient_B (Forget_B ifg r item) = quotient_B r"
  by (simp_all add: quotient_B_def)

lemma Success_B_failureRate:
  "failureRate (Success_B r s)
     = fadd (fmul (alpha r) (if s then Finite 0 else Finite 1))
            (fmul (fsub (Finite 1) (alpha r)) (failureRate r))"
  by (simp add: Success_B_def Let_def)

lemma Success_B_scaleFactor:
  "scaleFactor (Success_B r s)
     = fadd (fmul (failureRate (Success_B r s)) (fsub (quotient_B r) (Finite 1))) (Finite 1)"
  by (simp add: Success_B_def Let_def quotient_B_def)

lemma Success_B_others:
  "Success_B r s = r\<lparr>failureRate := failureRate (Success_B r s),
     scaleFactor := scaleFactor (Success_B r s)\<rparr>"
  by (simp add: Success_B_def Let_def)

text \<open>
  Under \<open>0 < baseDelay \<le> maxDelay\<close> the quotient is a float64 between 1 and \<open>2^63\<close>.
\<close>

lemma quotient_B_valid:
  assumes b: "0 < sint (baseDelay_B r)" and m: "sint (baseDelay_B r) \<le> sint (maxDelay_B r)"
  shows "\<exists>q. quotient_B r = Finite q \<and> 1 \<le> q \<and> q \<le> 2 ^ 63 \<and> is_float64 q"
proof -
  from b have b0: "0 \<le> sint (baseDelay_B r)" by simp
  from b m have m0: "0 \<le> sint (maxDelay_B r)" by simp
  from float64_of_int64_nonneg [OF b0] b obtain j where
    fb: "float64_of_int64 (baseDelay_B r) = Finite (of_int j)" and j1: "1 \<le> j" by blast
  from float64_of_int64_nonneg [OF m0] obtain i where
    fm: "float64_of_int64 (maxDelay_B r) = Finite (of_int i)" and i63: "i \<le> 2 ^ 63"
    and fi: "is_float64 (of_int i)" by blast
  from float64_of_int64_mono [OF b0 m] fb fm have ji: "(of_int j :: real) \<le> of_int i" by simp
  define x :: real where "x = of_int i / of_int j"
  have j1': "(1::real) \<le> of_int j" using j1 by simp
  have x1: "1 \<le> x" using ji j1' by (simp add: x_def)
  have i0: "(0::real) \<le> of_int i" using ji j1' by linarith
  have "of_int i / of_int j \<le> (of_int i :: real) / 1"
    using j1' i0 by (intro divide_left_mono) simp_all
  then have xi: "x \<le> of_int i" by (simp add: x_def)
  have x0: "0 \<le> x" using x1 by simp
  from round64_le [OF x0 xi fi]
  have r: "round64 x = Finite (fl x)" and le: "fl x \<le> of_int i" and f: "is_float64 (fl x)"
    by simp_all
  have "fl 1 \<le> fl x" using x1 by (intro fl_mono) simp_all
  then have g1: "1 \<le> fl x" by simp
  have "(of_int i :: real) \<le> of_int (2 ^ 63)" using i63 by (simp only: of_int_le_iff)
  then have g2: "fl x \<le> 2 ^ 63" using le by simp
  have "of_int j \<noteq> (0::real)" using j1' by simp
  then have "quotient_B r = round64 x" by (simp add: quotient_B_def fb fm x_def)
  then show ?thesis using r g1 g2 f by simp
qed

lemma scaleFactor_at_0:
  assumes b: "0 < sint (baseDelay_B r)" and m: "sint (baseDelay_B r) \<le> sint (maxDelay_B r)"
  shows "fadd (fmul (Finite 0) (fsub (quotient_B r) (Finite 1))) (Finite 1) = Finite 1"
proof -
  from quotient_B_valid [OF b m] obtain q where q: "quotient_B r = Finite q" and q1: "1 \<le> q"
    and qf: "is_float64 q" by blast
  have x0: "0 \<le> q - 1" using q1 by simp
  have xq: "q - 1 \<le> q" by simp
  from round64_le [OF x0 xq qf] have "round64 (q - 1) = Finite (fl (q - 1))" by simp
  then show ?thesis by (simp add: q fsub_def)
qed

lemma scaleFactor_at_1:
  assumes b: "0 < sint (baseDelay_B r)" and m: "sint (baseDelay_B r) \<le> sint (maxDelay_B r)"
    and s: "fle (quotient_B r) (Finite (2 ^ 53))"
  shows "fadd (fmul (Finite 1) (fsub (quotient_B r) (Finite 1))) (Finite 1) = quotient_B r"
proof -
  from quotient_B_valid [OF b m] obtain q where q: "quotient_B r = Finite q" and q1: "1 \<le> q"
    and qf: "is_float64 q" by blast
  have q53: "q \<le> 2 ^ 53" using s q by simp
  have "is_float64 (q - 1)" using qf q1 q53 by (rule is_float64_minus1)
  then have "round64 (q - 1) = Finite (q - 1)" by (rule round64_exact)
  moreover have "round64 q = Finite q" using qf by (rule round64_exact)
  ultimately show ?thesis by (simp add: q fsub_def)
qed

text \<open>
  Claim C5, as amended. For every state and every boolean, \<open>Success(success)\<close> sets
  \<open>failureRate\<close> to \<open>alpha * sample + (1 - alpha) * failureRate\<close> with \<open>sample = 0\<close> for a
  success and \<open>1\<close> otherwise, then \<open>scaleFactor\<close> to
  \<open>failureRate * (maxDelay / baseDelay - 1) + 1\<close>, every operation of both formulas being a
  float64 operation that rounds, and changes nothing else. Under \<open>0 < baseDelay \<le> maxDelay\<close>:
  \<open>scaleFactor = 1\<close> when the new \<open>failureRate\<close> is 0; and when the new \<open>failureRate\<close> is 1
  and the float64 quotient \<open>float64(maxDelay) / float64(baseDelay)\<close> is at most \<open>2^53\<close>,
  \<open>scaleFactor\<close> is that quotient.
\<close>

theorem Success_B_formula:
  "failureRate (Success_B r success)
     = fadd (fmul (alpha r) (if success then Finite 0 else Finite 1))
            (fmul (fsub (Finite 1) (alpha r)) (failureRate r))
   \<and> scaleFactor (Success_B r success)
     = fadd (fmul (failureRate (Success_B r success))
                  (fsub (fdiv (float64_of_int64 (maxDelay_B r))
                              (float64_of_int64 (baseDelay_B r)))
                        (Finite 1)))
            (Finite 1)
   \<and> Success_B r success = r\<lparr>failureRate := failureRate (Success_B r success),
         scaleFactor := scaleFactor (Success_B r success)\<rparr>
   \<and> (0 < sint (baseDelay_B r) \<and> sint (baseDelay_B r) \<le> sint (maxDelay_B r)
        \<and> failureRate (Success_B r success) = Finite 0
      \<longrightarrow> scaleFactor (Success_B r success) = Finite 1)
   \<and> (0 < sint (baseDelay_B r) \<and> sint (baseDelay_B r) \<le> sint (maxDelay_B r)
        \<and> failureRate (Success_B r success) = Finite 1
        \<and> fle (quotient_B r) (Finite (2 ^ 53))
      \<longrightarrow> scaleFactor (Success_B r success) = quotient_B r)"
proof -
  have 1: "scaleFactor (Success_B r success)
     = fadd (fmul (failureRate (Success_B r success))
                  (fsub (fdiv (float64_of_int64 (maxDelay_B r))
                              (float64_of_int64 (baseDelay_B r)))
                        (Finite 1)))
            (Finite 1)"
    using Success_B_scaleFactor [of r success] by (simp only: quotient_B_def)
  have 2: "scaleFactor (Success_B r success) = Finite 1"
    if "0 < sint (baseDelay_B r)" "sint (baseDelay_B r) \<le> sint (maxDelay_B r)"
      "failureRate (Success_B r success) = Finite 0"
    using that scaleFactor_at_0 [of r] by (simp add: Success_B_scaleFactor)
  have 3: "scaleFactor (Success_B r success) = quotient_B r"
    if "0 < sint (baseDelay_B r)" "sint (baseDelay_B r) \<le> sint (maxDelay_B r)"
      "failureRate (Success_B r success) = Finite 1" "fle (quotient_B r) (Finite (2 ^ 53))"
    using that scaleFactor_at_1 [of r] by (simp add: Success_B_scaleFactor)
  show ?thesis using Success_B_failureRate [of r success] 1 Success_B_others [of r success] 2 3
    by blast
qed

text \<open>
  One second, ten seconds and \<open>alpha = 1\<close>: a failure gives \<open>failureRate = 1\<close> and
  \<open>scaleFactor = 10\<close>, the quotient; a success gives \<open>failureRate = 0\<close> and \<open>scaleFactor = 1\<close>.
\<close>

theorem Success_B_formula_witness:
  "failureRate (Success_B (newItemExponentialFailureRateLimiterWithJitter_B (0::nat)
       1000000000 10000000000 (Finite 1) (sconst (Finite 0))) False) = Finite 1
   \<and> quotient_B (newItemExponentialFailureRateLimiterWithJitter_B (0::nat)
       1000000000 10000000000 (Finite 1) (sconst (Finite 0))) = Finite 10
   \<and> scaleFactor (Success_B (newItemExponentialFailureRateLimiterWithJitter_B (0::nat)
       1000000000 10000000000 (Finite 1) (sconst (Finite 0))) False) = Finite 10
   \<and> failureRate (Success_B (newItemExponentialFailureRateLimiterWithJitter_B (0::nat)
       1000000000 10000000000 (Finite 1) (sconst (Finite 0))) True) = Finite 0
   \<and> scaleFactor (Success_B (newItemExponentialFailureRateLimiterWithJitter_B (0::nat)
       1000000000 10000000000 (Finite 1) (sconst (Finite 0))) True) = Finite 1"
proof -
  let ?r = "newItemExponentialFailureRateLimiterWithJitter_B (0::nat)
       1000000000 10000000000 (Finite 1) (sconst (Finite 0))"
  have b: "0 < sint (baseDelay_B ?r) \<and> sint (baseDelay_B ?r) \<le> sint (maxDelay_B ?r)" by simp
  have q: "quotient_B ?r = Finite 10" by (simp add: quotient_B_def)
  have f1: "failureRate (Success_B ?r False) = Finite 1"
    by (simp add: Success_B_failureRate fsub_def)
  have f0: "failureRate (Success_B ?r True) = Finite 0"
    by (simp add: Success_B_failureRate fsub_def)
  have s: "fle (quotient_B ?r) (Finite (2 ^ 53))" by (simp add: q)
  from Success_B_formula [of ?r False] b f1 s
  have s1: "scaleFactor (Success_B ?r False) = quotient_B ?r" by blast
  from Success_B_formula [of ?r True] b f0
  have s0: "scaleFactor (Success_B ?r True) = Finite 1" by blast
  show ?thesis using s1 s0 q f1 f0 by simp
qed

text \<open>
  The claim as stated fails for \<open>baseDelay = 1 ns\<close>, \<open>maxDelay = 2^53 + 2 ns\<close> and
  \<open>alpha = 1\<close>: after one \<open>Success(false)\<close> the failure rate is 1 and the quotient is
  \<open>2^53 + 2\<close>, but \<open>quotient - 1 = 2^53 + 1\<close> is not a float64 and rounds to \<open>2^53\<close>, and
  adding 1 rounds to \<open>2^53\<close> again: \<open>scaleFactor = 2^53\<close>, not \<open>maxDelay / baseDelay\<close>.
\<close>

theorem Success_B_misses_quotient:
  "let s = Success_B (newItemExponentialFailureRateLimiterWithJitter_B (0::nat)
             1 9007199254740994 (Finite 1) (sconst (Finite 0))) False
   in 0 < sint (baseDelay_B s) \<and> sint (baseDelay_B s) \<le> sint (maxDelay_B s)
      \<and> failureRate s = Finite 1
      \<and> quotient_B s = Finite 9007199254740994
      \<and> scaleFactor s = Finite 9007199254740992"
proof -
  have 1: "round64 9007199254740994 = Finite 9007199254740994"
    by (rule round64_exact, rule is_float64I [of 4503599627370497 1]) simp_all
  have 2: "round64 9007199254740993 = Finite 9007199254740992"
    using round64_fl [of 9007199254740993] by (simp add: fl_2p53_plus1)
  have 3: "round64 9007199254740992 = Finite 9007199254740992"
    by (rule round64_exact, rule is_float64I [of 1 53]) simp_all
  show ?thesis
    by (simp add: Success_B_def quotient_B_def Let_def fsub_def 
      newItemExponentialFailureRateLimiterWithJitter_B_def float64_of_int64_2p53_plus2 1 2 3)
qed

text \<open>
  With \<open>baseDelay = 0\<close>, which the constructor's contract excludes, the quotient is \<open>+Inf\<close>
  and a failure rate of 0 gives \<open>scaleFactor = 0 * Inf + 1 = NaN\<close>.
\<close>

lemma Success_B_zero_baseDelay:
  "let s = Success_B (newItemExponentialFailureRateLimiterWithJitter_B (0::nat)
             0 1000000000 (Finite 1) (sconst (Finite 0))) True
   in failureRate s = Finite 0 \<and> quotient_B s = PosInf \<and> scaleFactor s = NaN"
  by (simp add: Success_B_def quotient_B_def Let_def fsub_def
    newItemExponentialFailureRateLimiterWithJitter_B_def)

text \<open>
  The rounding is visible in the test's configuration. With one second, ten seconds and
  \<open>alpha = 0.05\<close>, the first \<open>Success(false)\<close> sets \<open>failureRate\<close> to the float64 nearest to
  \<open>0.05\<close> and \<open>scaleFactor\<close> to \<open>6530219459687219 / 2^52\<close>, just below the \<open>1.45\<close> of exact
  arithmetic.
\<close>

lemma Success_B_rounds:
  "failureRate (Success_B (newItemExponentialFailureRateLimiterWithJitter_B q
       1000000000 10000000000 (round64 (5 / 100)) seeded) False)
     = Finite (3602879701896397 / 2 ^ 56)
   \<and> scaleFactor (Success_B (newItemExponentialFailureRateLimiterWithJitter_B q
       1000000000 10000000000 (round64 (5 / 100)) seeded) False)
     = Finite (6530219459687219 / 2 ^ 52)
   \<and> (6530219459687219 / 2 ^ 52 :: real) < 1 + 9 * (5 / 100)"
proof -
  let ?r = "newItemExponentialFailureRateLimiterWithJitter_B q
       1000000000 10000000000 (round64 (5 / 100)) seeded"
  have a: "alpha ?r = Finite (3602879701896397 / 2 ^ 56)" by (simp only: new_B_simps alpha_val)
  have ra: "round64 (3602879701896397 / 2 ^ 56) = Finite (3602879701896397 / 2 ^ 56)"
    using is_float64_alpha by (rule round64_exact)
  have b: "fsub (Finite 1) (Finite (3602879701896397 / 2 ^ 56)) = Finite (8556839292003942 / 2 ^ 53)"
    unfolding fsub_def fneg.simps fadd.simps
    using beta_val by (intro round64_eval) simp_all
  have "failureRate (Success_B ?r False)
      = fadd (fmul (Finite (3602879701896397 / 2 ^ 56)) (Finite 1))
             (fmul (Finite (8556839292003942 / 2 ^ 53)) (Finite 0))"
    unfolding Success_B_failureRate a b by simp
  also have "\<dots> = Finite (3602879701896397 / 2 ^ 56)" using ra by simp
  finally have f: "failureRate (Success_B ?r False) = Finite (3602879701896397 / 2 ^ 56)" .
  have qv: "quotient_B ?r = Finite 10" by (simp add: quotient_B_def)
  have m: "fmul (Finite (3602879701896397 / 2 ^ 56)) (Finite 9) = Finite (8106479329266893 / 2 ^ 54)"
    unfolding fmul.simps using fl_nine_alpha by (rule round64_eval) simp_all
  have p: "fadd (Finite (8106479329266893 / 2 ^ 54)) (Finite 1) = Finite (6530219459687219 / 2 ^ 52)"
    unfolding fadd.simps using fl_nine_alpha_plus1 by (rule round64_eval) simp_all
  have "fsub (Finite 10) (Finite 1) = Finite 9" by (simp add: fsub_def)
  then have s: "scaleFactor (Success_B ?r False) = Finite (6530219459687219 / 2 ^ 52)"
    unfolding Success_B_scaleFactor f qv by (simp only: m p)
  have "(6530219459687219 / 2 ^ 52 :: real) < 1 + 9 * (5 / 100)" by simp
  then show ?thesis using f s by simp
qed

text \<open>
  One step of the moving average: for a float64 \<open>alpha\<close> in \<open>(0, 1]\<close> and a failure rate in
  \<open>[0, 1]\<close> the new failure rate is in \<open>[0, 1]\<close> and within \<open>2^-53\<close> of
  \<open>alpha * sample + fl (1 - alpha) * failureRate\<close>; and the scale factor computed from a
  failure rate in \<open>[0, 1]\<close> and a quotient \<open>q \<ge> 1\<close> is in \<open>[1, q]\<close>.
\<close>

lemma ema_step_error:
  assumes af: "is_float64 a" and a0: "0 < a" and a1: "a \<le> 1" and f0: "0 \<le> f" and f1: "f \<le> 1"
  shows "\<exists>f'. fadd (fmul (Finite a) (if s then Finite 0 else Finite 1))
                    (fmul (fsub (Finite 1) (Finite a)) (Finite f)) = Finite f'
              \<and> 0 \<le> f' \<and> f' \<le> 1
              \<and> (if s then 0 else a) + fl (1 - a) * f - 1 / 2 ^ 53 \<le> f'
              \<and> f' \<le> (if s then 0 else a) + fl (1 - a) * f + 1 / 2 ^ 53"
proof -
  define \<beta> where "\<beta> = fl (1 - a)"
  have x0: "0 \<le> 1 - a" using a1 by simp
  have x1: "1 - a \<le> 1" using a0 by simp
  from round64_le [OF x0 x1] have rb: "round64 (1 - a) = Finite \<beta>" and b0: "0 \<le> \<beta>"
    and b1: "\<beta> \<le> 1" and bf: "is_float64 \<beta>" by (simp_all add: \<beta>_def)
  have "\<bar>1 - a\<bar> < 1" using a0 a1 by simp
  then have "\<bar>fl (1 - a) - (1 - a)\<bar> \<le> 1 / 2 ^ 54" by (rule fl_err_lt1)
  moreover have "fl (1 - a) - (1 - a) \<le> \<bar>fl (1 - a) - (1 - a)\<bar>" by simp
  ultimately have ab: "a + \<beta> \<le> 1 + 1 / 2 ^ 54" unfolding \<beta>_def by linarith
  define g where "g = fl (\<beta> * f)"
  have y0: "0 \<le> \<beta> * f" using b0 f0 by simp
  have "\<beta> * f \<le> \<beta> * 1" using b0 f1 by (intro mult_left_mono)
  then have y1: "\<beta> * f \<le> \<beta>" by simp
  from round64_le [OF y0 y1 bf] have rg: "round64 (\<beta> * f) = Finite g" and g0: "0 \<le> g"
    and g1: "g \<le> \<beta>" by (simp_all add: g_def)
  have "\<bar>\<beta> * f\<bar> \<le> 1" using y0 y1 b1 by simp
  then have eg: "\<bar>g - \<beta> * f\<bar> \<le> 1 / 2 ^ 54" unfolding g_def by (rule fl_err_le1)
  define c where "c = (if s then 0 else a)"
  have c: "fmul (Finite a) (if s then Finite 0 else Finite 1) = Finite c"
    using af by (simp add: c_def round64_exact)
  have c0: "0 \<le> c" and c1: "c \<le> a" using a0 by (simp_all add: c_def)
  have z0: "0 \<le> c + g" using c0 g0 by simp
  have z1: "c + g \<le> 1 + 1 / 2 ^ 54" using c1 g1 ab by linarith
  with z0 have "fl (c + g) \<le> fl (1 + 1 / 2 ^ 54)" by (rule fl_mono)
  then have le1: "fl (c + g) \<le> 1" by (simp only: fl_one_plus)
  have ge0: "0 \<le> fl (c + g)" using z0 by (rule fl_nonneg)
  have ef: "\<bar>fl (c + g) - (c + g)\<bar> \<le> 1 / 2 ^ 54"
  proof (cases "c + g \<le> 1")
    case True
    then have "\<bar>c + g\<bar> \<le> 1" using z0 by simp
    then show ?thesis by (rule fl_err_le1)
  next
    case False
    then have "1 \<le> c + g" by simp
    then have "fl 1 \<le> fl (c + g)" by (intro fl_mono) simp_all
    then have "fl (c + g) = 1" using le1 by simp
    then show ?thesis using False z1 by simp
  qed
  have "\<bar>fl (c + g) - (c + \<beta> * f)\<bar> \<le> \<bar>fl (c + g) - (c + g)\<bar> + \<bar>g - \<beta> * f\<bar>" by simp
  also have "\<dots> \<le> 1 / 2 ^ 54 + 1 / 2 ^ 54" using ef eg by (rule add_mono)
  finally have err: "\<bar>fl (c + g) - (c + \<beta> * f)\<bar> \<le> 1 / 2 ^ 53" by simp
  have "fl (c + g) - (c + \<beta> * f) \<le> \<bar>fl (c + g) - (c + \<beta> * f)\<bar>" by simp
  with err have up: "fl (c + g) \<le> c + \<beta> * f + 1 / 2 ^ 53" by linarith
  have "(c + \<beta> * f) - fl (c + g) \<le> \<bar>fl (c + g) - (c + \<beta> * f)\<bar>" by simp
  with err have lo: "c + \<beta> * f - 1 / 2 ^ 53 \<le> fl (c + g)" by linarith
  have "fl (c + g) \<le> 2 ^ 63" using le1 by simp
  with ge0 have "round64 (c + g) = Finite (fl (c + g))" by (rule round64_fl)
  moreover have "fsub (Finite 1) (Finite a) = Finite \<beta>" using rb by (simp add: fsub_def)
  ultimately have "fadd (fmul (Finite a) (if s then Finite 0 else Finite 1))
      (fmul (fsub (Finite 1) (Finite a)) (Finite f)) = Finite (fl (c + g))"
    using rg by (simp add: c)
  then show ?thesis using ge0 le1 lo up unfolding c_def \<beta>_def by blast
qed

lemma scale_step_bounds:
  assumes qf: "is_float64 q" and q1: "1 \<le> q" and q63: "q \<le> 2 ^ 63"
    and f0: "0 \<le> f" and f1: "f \<le> 1"
  shows "\<exists>s. fadd (fmul (Finite f) (fsub (Finite q) (Finite 1))) (Finite 1) = Finite s
            \<and> 1 \<le> s \<and> s \<le> q"
proof -
  define t where "t = fl (q - 1)"
  have x0: "0 \<le> q - 1" using q1 by simp
  have xq: "q - 1 \<le> q" by simp
  from round64_le [OF x0 xq qf] have rt: "round64 (q - 1) = Finite t" and t0: "0 \<le> t"
    and tf: "is_float64 t" by (simp_all add: t_def)
  define u where "u = fl (f * t)"
  have y0: "0 \<le> f * t" using f0 t0 by simp
  have "f * t \<le> 1 * t" using f1 t0 by (intro mult_right_mono)
  then have y1: "f * t \<le> t" by simp
  from round64_le [OF y0 y1 tf] have ru: "round64 (f * t) = Finite u" and u0: "0 \<le> u"
    and ut: "u \<le> t" by (simp_all add: u_def)
  have z0: "0 \<le> u + 1" using u0 by simp
  have "u + 1 \<le> t + 1" using ut by simp
  with z0 have "fl (u + 1) \<le> fl (t + 1)" by (rule fl_mono)
  moreover have "fl (t + 1) \<le> q" unfolding t_def using qf q1 by (rule fl_pred_succ)
  ultimately have le: "fl (u + 1) \<le> q" by linarith
  have "fl 1 \<le> fl (u + 1)" using u0 by (intro fl_mono) simp_all
  then have ge: "1 \<le> fl (u + 1)" by simp
  have "0 \<le> fl (u + 1)" using ge by simp
  moreover have "fl (u + 1) \<le> 2 ^ 63" using le q63 by simp
  ultimately have "round64 (u + 1) = Finite (fl (u + 1))" by (rule round64_fl)
  then have "fadd (fmul (Finite f) (fsub (Finite q) (Finite 1))) (Finite 1) = Finite (fl (u + 1))"
    using rt ru by (simp add: fsub_def)
  then show ?thesis using ge le by blast
qed

lemma Success_B_inv:
  assumes b: "0 < sint (baseDelay_B r)" and m: "sint (baseDelay_B r) \<le> sint (maxDelay_B r)"
    and al: "alpha r = Finite a" and af: "is_float64 a" and a0: "0 < a" and a1: "a \<le> 1"
    and i: "inv_B r"
  shows "inv_B (Success_B r s)"
proof -
  from i have "fle (Finite 0) (failureRate r)" "fle (failureRate r) (Finite 1)"
    by (simp_all add: inv_B_def)
  then obtain f where f: "failureRate r = Finite f" and f0: "0 \<le> f" and f1: "f \<le> 1"
    using fle_Finite_bounds by blast
  from ema_step_error [OF af a0 a1 f0 f1, of s] obtain f' where
    f': "failureRate (Success_B r s) = Finite f'" and f'0: "0 \<le> f'" and f'1: "f' \<le> 1"
    unfolding Success_B_failureRate al f by blast
  from quotient_B_valid [OF b m] obtain q where q: "quotient_B r = Finite q" and q1: "1 \<le> q"
    and q63: "q \<le> 2 ^ 63" and qf: "is_float64 q" by blast
  from scale_step_bounds [OF qf q1 q63 f'0 f'1] obtain s' where
    "scaleFactor (Success_B r s) = Finite s'" "1 \<le> s'" "s' \<le> q"
    unfolding Success_B_scaleFactor f' q by blast
  then show ?thesis using f' f'0 f'1 q by (simp add: inv_B_def)
qed

lemma step_B_inv:
  assumes "0 < sint (baseDelay_B r)" "sint (baseDelay_B r) \<le> sint (maxDelay_B r)"
    "alpha r = Finite a" "is_float64 a" "0 < a" "a \<le> 1" "inv_B r"
  shows "inv_B (step_B oor iw r op)"
proof (cases op)
  case (When_op_B item)
  then show ?thesis using assms(7) by (simp add: inv_B_def)
next
  case (Success_op_B s)
  then show ?thesis using Success_B_inv [of r a s] assms by simp
next
  case ScaleFactor_op_B
  then show ?thesis using assms(7) by (simp add: ScaleFactor_B_def)
qed

lemma run_B_inv:
  "0 < sint (baseDelay_B r) \<Longrightarrow> sint (baseDelay_B r) \<le> sint (maxDelay_B r) \<Longrightarrow>
   alpha r = Finite a \<Longrightarrow> is_float64 a \<Longrightarrow> 0 < a \<Longrightarrow> a \<le> 1 \<Longrightarrow> inv_B r
   \<Longrightarrow> inv_B (run_B oor iw ops r)"
proof (induction ops arbitrary: r)
  case Nil
  then show ?case by (simp add: run_B_def)
next
  case (Cons op ops)
  have "inv_B (step_B oor iw r op)" using Cons.prems by (intro step_B_inv)
  then have "inv_B (run_B oor iw ops (step_B oor iw r op))"
    using Cons.prems by (intro Cons.IH) simp_all
  then show ?case by (simp add: run_B_def)
qed

text \<open>
  Claim C6, as amended. With \<open>0 < baseDelay \<le> maxDelay\<close> and \<open>alpha\<close> a float64 with
  \<open>0 < alpha \<le> 1\<close>, a fresh instance has \<open>failureRate = 0\<close> and \<open>scaleFactor = 1\<close>, every
  operation (\<open>When\<close>, \<open>Success\<close>, \<open>ScaleFactor\<close>) preserves \<open>0 \<le> failureRate \<le> 1\<close> and
  \<open>1 \<le> scaleFactor \<le> q\<close>, where \<open>q\<close> is the float64 quotient
  \<open>float64(maxDelay) / float64(baseDelay)\<close> that the code computes, and so every state a
  run of operations reaches from a fresh instance satisfies both.
\<close>

theorem inv_B_invariant:
  assumes "0 < sint b" and "sint b \<le> sint m" and "is_float64 a" and "0 < a" and "a \<le> 1"
  shows "failureRate (newItemExponentialFailureRateLimiterWithJitter_B q b m (Finite a) seeded)
           = Finite 0
       \<and> scaleFactor (newItemExponentialFailureRateLimiterWithJitter_B q b m (Finite a) seeded)
           = Finite 1
       \<and> inv_B (run_B oor iw ops
             (newItemExponentialFailureRateLimiterWithJitter_B q b m (Finite a) seeded))
       \<and> (baseDelay_B r = b \<and> maxDelay_B r = m \<and> alpha r = Finite a \<and> inv_B r
            \<longrightarrow> inv_B (step_B oor iw r op))"
proof -
  let ?new = "newItemExponentialFailureRateLimiterWithJitter_B q b m (Finite a) seeded"
  have bm: "0 < sint (baseDelay_B ?new)" "sint (baseDelay_B ?new) \<le> sint (maxDelay_B ?new)"
    using assms by simp_all
  from quotient_B_valid [OF bm] obtain x where "quotient_B ?new = Finite x" "1 \<le> x" by blast
  then have "inv_B ?new" by (simp add: inv_B_def)
  then have "inv_B (run_B oor iw ops ?new)"
    using assms by (intro run_B_inv [where a = a]) simp_all
  moreover have "baseDelay_B r = b \<and> maxDelay_B r = m \<and> alpha r = Finite a \<and> inv_B r
            \<longrightarrow> inv_B (step_B oor iw r op)"
    using assms step_B_inv [of r a oor iw op] by blast
  ultimately show ?thesis by simp
qed

text \<open>
  One second, ten seconds and \<open>alpha = 0.05\<close> (the float64 nearest to it), after a
  \<open>When\<close>, a failure, a \<open>ScaleFactor\<close> and a success.
\<close>

theorem inv_B_invariant_witness:
  "inv_B (run_B oor_amd64 (\<lambda>q i. (1000000000, q :: nat))
      [When_op_B (1::nat), Success_op_B False, ScaleFactor_op_B, Success_op_B True]
      (newItemExponentialFailureRateLimiterWithJitter_B 0 1000000000 10000000000
        (round64 (5 / 100)) (sconst (Finite (1 / 2)))))"
proof -
  have 1: "0 < sint (1000000000 :: 64 word)" by simp
  have 2: "sint (1000000000 :: 64 word) \<le> sint (10000000000 :: 64 word)" by simp
  have 3: "(0 :: real) < 3602879701896397 / 2 ^ 56" by simp
  have 4: "(3602879701896397 / 2 ^ 56 :: real) \<le> 1" by simp
  from inv_B_invariant [OF 1 2 is_float64_alpha 3 4, where q = "0 :: nat"
      and seeded = "sconst (Finite (1 / 2))" and oor = oor_amd64
      and iw = "\<lambda>q i. (1000000000, q :: nat)"
      and ops = "[When_op_B (1::nat), Success_op_B False, ScaleFactor_op_B, Success_op_B True]"]
  show ?thesis unfolding alpha_val by blast
qed

text \<open>
  The claim as stated bounds \<open>scaleFactor\<close> by the quotient \<open>maxDelay / baseDelay\<close> itself.
  With three seconds, ten seconds and \<open>alpha = 1\<close>, one \<open>Success(false)\<close> sets
  \<open>scaleFactor\<close> to the float64 nearest to \<open>10 / 3\<close>, which is \<open>7505999378950827 / 2^51\<close>
  and above \<open>10 / 3\<close>.
\<close>

theorem scaleFactor_above_quotient:
  "let s = Success_B (newItemExponentialFailureRateLimiterWithJitter_B (0::nat)
             3000000000 10000000000 (Finite 1) (sconst (Finite 0))) False
   in 0 < sint (baseDelay_B s) \<and> sint (baseDelay_B s) \<le> sint (maxDelay_B s)
      \<and> scaleFactor s = Finite (7505999378950827 / 2 ^ 51)
      \<and> (of_int (sint (maxDelay_B s)) / of_int (sint (baseDelay_B s)) :: real)
          < 7505999378950827 / 2 ^ 51"
proof -
  have "round64 (10 / 3) = Finite (7505999378950827 / 2 ^ 51)"
    using fl_ten_thirds by (rule round64_eval) simp_all
  then have 1: "round64 (10 / 3) = Finite (7505999378950827 / 2251799813685248)" by simp
  have 2: "round64 (5254199565265579 / 2251799813685248)
      = Finite (5254199565265579 / 2251799813685248)"
    by (rule round64_exact, rule is_float64I [of 5254199565265579 "- 51"]) simp_all
  have 3: "round64 (7505999378950827 / 2251799813685248)
      = Finite (7505999378950827 / 2251799813685248)"
    by (rule round64_exact, rule is_float64I [of 7505999378950827 "- 51"]) simp_all
  show ?thesis
    by (simp add: Success_B_def Let_def fsub_def
      newItemExponentialFailureRateLimiterWithJitter_B_def 1 2 3 del: of_int_sint)
qed

text \<open>
  The test's constants. With \<open>alpha\<close> the float64 nearest to \<open>0.05\<close> and
  \<open>\<rho> = 0.9501\<close>, after \<open>n \<le> 100\<close> failures in a row the failure rate is at least
  \<open>1 - \<rho>^n\<close>, and after \<open>n \<le> 100\<close> successes in a row at most \<open>\<rho>^n\<close>: the rounding
  errors of a step, at most \<open>2^-53\<close>, are absorbed by the distance between \<open>\<rho>\<close> and
  \<open>fl (1 - alpha)\<close>. With the quotient 10, a failure rate of at least \<open>143/144\<close> gives a
  scale factor of at least \<open>159/16\<close>, and one of at most \<open>1/144\<close> a scale factor of at most
  \<open>17/16\<close>.
\<close>

lemma funpow_frame:
  fixes g :: "'q rateLimiter_B \<Rightarrow> 'q rateLimiter_B"
  assumes "\<And>r. alpha (g r) = alpha r" and "\<And>r. baseDelay_B (g r) = baseDelay_B r"
    and "\<And>r. maxDelay_B (g r) = maxDelay_B r"
  shows "alpha ((g ^^ n) r) = alpha r \<and> baseDelay_B ((g ^^ n) r) = baseDelay_B r \<and>
         maxDelay_B ((g ^^ n) r) = maxDelay_B r"
  by (induction n) (simp_all add: assms)

lemma rho_bounds:
  assumes n: "n \<le> 100"
  shows "(1 / 1000 :: real) \<le> (9501 / 10000) ^ n \<and> (9501 / 10000 :: real) ^ n \<le> 1"
proof -
  have "(9501 / 10000 :: real) ^ 100 \<le> (9501 / 10000) ^ n"
    using n by (intro power_decreasing) simp_all
  moreover have "(1 / 1000 :: real) \<le> (9501 / 10000) ^ 100" by (simp add: power_divide)
  moreover have "(9501 / 10000 :: real) ^ n \<le> 1" by (intro power_le_one) simp_all
  ultimately show ?thesis by linarith
qed

lemma rho_100: "(9501 / 10000 :: real) ^ 100 \<le> 1 / 144"
  by (simp add: power_divide)

lemma hundred_Suc: "(100::nat) = Suc 99"
  by simp

lemma ema_phase:
  fixes g :: "'q rateLimiter_B \<Rightarrow> 'q rateLimiter_B"
  assumes al: "\<And>r. alpha (g r) = alpha r" and ba: "\<And>r. baseDelay_B (g r) = baseDelay_B r"
    and ma: "\<And>r. maxDelay_B (g r) = maxDelay_B r"
    and fr: "\<And>r. failureRate (g r) = failureRate (Success_B r s)"
    and a: "alpha r = Finite (3602879701896397 / 2 ^ 56)"
    and f: "fle (Finite 0) (failureRate r)" "fle (failureRate r) (Finite 1)"
  shows "n \<le> 100 \<Longrightarrow> \<exists>f. failureRate ((g ^^ n) r) = Finite f \<and> 0 \<le> f \<and> f \<le> 1
    \<and> (if s then f \<le> (9501 / 10000) ^ n else 1 - (9501 / 10000) ^ n \<le> f)"
proof (induction n)
  case 0
  from f obtain f0 where "failureRate r = Finite f0" "0 \<le> f0" "f0 \<le> 1"
    using fle_Finite_bounds by blast
  then show ?case by auto
next
  case (Suc n)
  define x where "x = (g ^^ n) r"
  define P :: real where "P = (9501 / 10000) ^ n"
  from Suc obtain f where fx: "failureRate x = Finite f" and f0: "0 \<le> f" and f1: "f \<le> 1"
    and fb: "if s then f \<le> P else 1 - P \<le> f"
    unfolding x_def P_def by auto
  have ax: "alpha x = Finite (3602879701896397 / 2 ^ 56)"
    using funpow_frame [where g = g and n = n and r = r, OF al ba ma] a by (simp add: x_def)
  have n: "n \<le> 100" using Suc.prems by simp
  have P: "1 / 1000 \<le> P" "P \<le> 1" using rho_bounds [OF n] by (simp_all add: P_def)
  have a0: "(0 :: real) < 3602879701896397 / 2 ^ 56" by simp
  have a1: "(3602879701896397 / 2 ^ 56 :: real) \<le> 1" by simp
  from ema_step_error [OF is_float64_alpha a0 a1 f0 f1, of s] obtain f' where
    e: "failureRate (Success_B x s) = Finite f'" and f'0: "0 \<le> f'" and f'1: "f' \<le> 1"
    and lo: "(if s then 0 else 3602879701896397 / 2 ^ 56)
        + 8556839292003942 / 2 ^ 53 * f - 1 / 2 ^ 53 \<le> f'"
    and up: "f' \<le> (if s then 0 else 3602879701896397 / 2 ^ 56)
        + 8556839292003942 / 2 ^ 53 * f + 1 / 2 ^ 53"
    unfolding Success_B_failureRate ax fx beta_val by blast
  have g: "failureRate ((g ^^ Suc n) r) = Finite f'" using e by (simp add: fr x_def)
  have PS: "(9501 / 10000 :: real) ^ Suc n = 9501 / 10000 * P" by (simp add: P_def)
  define A :: real where "A = 3602879701896397 / 2 ^ 56"
  define B :: real where "B = 8556839292003942 / 2 ^ 53"
  define u :: real where "u = 1 / 2 ^ 53"
  define \<rho> :: real where "\<rho> = 9501 / 10000"
  have B0: "0 \<le> B" by (simp add: B_def)
  have "if s then f' \<le> \<rho> * P else 1 - \<rho> * P \<le> f'"
  proof (cases s)
    case True
    then have "f \<le> P" using fb by simp
    then have "B * f \<le> B * P" using B0 by (rule mult_left_mono)
    moreover have "f' \<le> B * f + u" using up True by (simp add: B_def u_def)
    moreover have "B * P + u \<le> \<rho> * P" using P by (simp add: B_def u_def \<rho>_def)
    ultimately have "f' \<le> \<rho> * P" by linarith
    then show ?thesis using True by simp
  next
    case False
    then have "1 - P \<le> f" using fb by simp
    then have "B * (1 - P) \<le> B * f" using B0 by (rule mult_left_mono)
    moreover have "A + B * f - u \<le> f'" using lo False by (simp add: A_def B_def u_def)
    moreover have "1 - \<rho> * P \<le> A + B * (1 - P) - u"
      using P by (simp add: A_def B_def u_def \<rho>_def field_simps)
    ultimately have "1 - \<rho> * P \<le> f'" by linarith
    then show ?thesis using False by simp
  qed
  then have "if s then f' \<le> 9501 / 10000 * P else 1 - 9501 / 10000 * P \<le> f'"
    by (simp only: \<rho>_def)
  then show ?case using g f'0 f'1 unfolding PS by auto
qed

lemma scale_10:
  assumes f0: "0 \<le> f" and f1: "f \<le> 1"
  shows "\<exists>s. fadd (fmul (Finite f) (fsub (Finite 10) (Finite 1))) (Finite 1) = Finite s
    \<and> (143 / 144 \<le> f \<longrightarrow> 159 / 16 \<le> s) \<and> (f \<le> 1 / 144 \<longrightarrow> s \<le> 17 / 16)"
proof -
  define u where "u = fl (f * 9)"
  have x0: "0 \<le> f * 9" using f0 by simp
  have x1: "f * 9 \<le> 9" using f1 by simp
  have f9: "is_float64 9" using is_float64_int [of 9] by simp
  from round64_le [OF x0 x1 f9] have ru: "round64 (f * 9) = Finite u" and u0: "0 \<le> u"
    and u9: "u \<le> 9" by (simp_all add: u_def)
  have y0: "0 \<le> u + 1" using u0 by simp
  have y1: "u + 1 \<le> 10" using u9 by simp
  have f10: "is_float64 10" using is_float64_int [of 10] by simp
  from round64_le [OF y0 y1 f10] have rs: "round64 (u + 1) = Finite (fl (u + 1))" by simp
  have e: "fadd (fmul (Finite f) (fsub (Finite 10) (Finite 1))) (Finite 1) = Finite (fl (u + 1))"
    using ru rs by (simp add: fsub_def)
  have lo: "159 / 16 \<le> fl (u + 1)" if "143 / 144 \<le> f"
  proof -
    have "143 / 16 \<le> f * 9" using that by simp
    then have "fl (143 / 16) \<le> fl (f * 9)" by (intro fl_mono) simp_all
    moreover have "is_float64 (143 / 16)" by (rule is_float64I [of 143 "- 4"]) simp_all
    ultimately have "143 / 16 \<le> u" by (simp add: fl_exact u_def)
    then have "159 / 16 \<le> u + 1" by simp
    then have "fl (159 / 16) \<le> fl (u + 1)" by (intro fl_mono) simp_all
    moreover have "is_float64 (159 / 16)" by (rule is_float64I [of 159 "- 4"]) simp_all
    ultimately show ?thesis by (simp add: fl_exact)
  qed
  have up: "fl (u + 1) \<le> 17 / 16" if "f \<le> 1 / 144"
  proof -
    have "f * 9 \<le> 1 / 16" using that by simp
    with x0 have "fl (f * 9) \<le> fl (1 / 16)" by (rule fl_mono)
    moreover have "is_float64 (1 / 16)" by (rule is_float64I [of 1 "- 4"]) simp_all
    ultimately have "u \<le> 1 / 16" by (simp add: fl_exact u_def)
    then have "u + 1 \<le> 17 / 16" by simp
    with y0 have "fl (u + 1) \<le> fl (17 / 16)" by (rule fl_mono)
    moreover have "is_float64 (17 / 16)" by (rule is_float64I [of 17 "- 4"]) simp_all
    ultimately show ?thesis by (simp add: fl_exact)
  qed
  show ?thesis using e lo up by blast
qed

lemma ema_100:
  fixes g :: "'q rateLimiter_B \<Rightarrow> 'q rateLimiter_B"
  assumes al: "\<And>r. alpha (g r) = alpha r" and ba: "\<And>r. baseDelay_B (g r) = baseDelay_B r"
    and ma: "\<And>r. maxDelay_B (g r) = maxDelay_B r"
    and fr: "\<And>r. failureRate (g r) = failureRate (Success_B r s)"
    and sc: "\<And>r. scaleFactor (g r) = scaleFactor (Success_B r s)"
    and a: "alpha r = Finite (3602879701896397 / 2 ^ 56)"
    and b: "baseDelay_B r = 1000000000" and m: "maxDelay_B r = 10000000000"
    and f: "fle (Finite 0) (failureRate r)" "fle (failureRate r) (Finite 1)"
  shows "alpha ((g ^^ 100) r) = Finite (3602879701896397 / 2 ^ 56)
    \<and> baseDelay_B ((g ^^ 100) r) = 1000000000 \<and> maxDelay_B ((g ^^ 100) r) = 10000000000
    \<and> fle (Finite 0) (failureRate ((g ^^ 100) r)) \<and> fle (failureRate ((g ^^ 100) r)) (Finite 1)
    \<and> (if s then fle (scaleFactor ((g ^^ 100) r)) (Finite (11 / 10))
        else fle (Finite (99 / 10)) (scaleFactor ((g ^^ 100) r)))"
proof -
  define x where "x = (g ^^ 99) r"
  have gx: "(g ^^ 100) r = g x" by (simp only: hundred_Suc funpow.simps o_apply x_def)
  note fp = funpow_frame [where g = g and r = r, OF al ba ma]
  have cfg: "alpha (g x) = Finite (3602879701896397 / 2 ^ 56)"
    "baseDelay_B (g x) = 1000000000" "maxDelay_B (g x) = 10000000000"
    using fp [of 100] a b m by (simp_all add: gx)
  have cx: "baseDelay_B x = 1000000000" "maxDelay_B x = 10000000000"
    using fp [of 99] b m by (simp_all add: x_def)
  have q: "quotient_B x = Finite 10" by (simp add: quotient_B_def cx)
  from ema_phase [where g = g and s = s and r = r and n = 100, OF al ba ma fr a f]
  obtain v where v: "failureRate (g x) = Finite v" and v0: "0 \<le> v" and v1: "v \<le> 1"
    and vb: "if s then v \<le> (9501 / 10000) ^ 100 else 1 - (9501 / 10000) ^ 100 \<le> v"
    unfolding gx by auto
  have fs: "failureRate (Success_B x s) = Finite v" using v by (simp add: fr)
  from scale_10 [OF v0 v1] obtain t where
    t: "scaleFactor (g x) = Finite t" and lo: "143 / 144 \<le> v \<longrightarrow> 159 / 16 \<le> t"
    and up: "v \<le> 1 / 144 \<longrightarrow> t \<le> 17 / 16"
    unfolding sc Success_B_scaleFactor fs q by blast
  have "if s then t \<le> 11 / 10 else 99 / 10 \<le> t"
  proof (cases s)
    case True
    then have "v \<le> 1 / 144" using vb rho_100 by simp
    then have "t \<le> 17 / 16" using up by simp
    then show ?thesis using True by simp
  next
    case False
    then have "143 / 144 \<le> v" using vb rho_100 by simp
    then have "159 / 16 \<le> t" using lo by simp
    then show ?thesis using False by simp
  qed
  then show ?thesis using cfg v v0 v1 t unfolding gx by (simp split: if_splits)
qed

lemma test_round_frame [simp]:
  "alpha (test_round oor iw ifg item s r) = alpha r"
  "baseDelay_B (test_round oor iw ifg item s r) = baseDelay_B r"
  "maxDelay_B (test_round oor iw ifg item s r) = maxDelay_B r"
  "failureRate (test_round oor iw ifg item s r) = failureRate (Success_B r s)"
  "scaleFactor (test_round oor iw ifg item s r) = scaleFactor (Success_B r s)"
  by (simp_all add: test_round_def Success_B_failureRate Success_B_scaleFactor)

text \<open>
  Claim C7. With one second, ten seconds and \<open>alpha = 0.05\<close>, the float64 nearest to it:
  a fresh instance has \<open>scaleFactor = 1\<close>; after 100 calls of \<open>Success(false)\<close> it is at
  least 9.9; after 100 further calls of \<open>Success(true)\<close> it is at most 1.1. The same holds
  for the loops of \<open>TestRateLimiter\<close>, which call \<open>When(1)\<close> and \<open>Forget(1)\<close> before each
  \<open>Success\<close>, with any wrapped limiter, any samples and any conversion out of range: only
  \<open>Success\<close> writes \<open>failureRate\<close> and \<open>scaleFactor\<close>.
\<close>

theorem TestRateLimiter_scaleFactor:
  "let r0 = newItemExponentialFailureRateLimiterWithJitter_B q 1000000000 10000000000
              (round64 (5 / 100)) seeded;
       r1 = ((\<lambda>r. Success_B r False) ^^ 100) r0;
       r2 = ((\<lambda>r. Success_B r True) ^^ 100) r1;
       t1 = (test_round oor iw ifg item False ^^ 100) r0;
       t2 = (test_round oor iw ifg item True ^^ 100) t1
   in scaleFactor r0 = Finite 1
      \<and> fle (Finite (99 / 10)) (scaleFactor r1) \<and> fle (scaleFactor r2) (Finite (11 / 10))
      \<and> fle (Finite (99 / 10)) (scaleFactor t1) \<and> fle (scaleFactor t2) (Finite (11 / 10))"
proof -
  define r0 where "r0 = newItemExponentialFailureRateLimiterWithJitter_B q 1000000000 10000000000
              (round64 (5 / 100)) seeded"
  define r1 where "r1 = ((\<lambda>r. Success_B r False) ^^ 100) r0"
  define r2 where "r2 = ((\<lambda>r. Success_B r True) ^^ 100) r1"
  define t1 where "t1 = (test_round oor iw ifg item False ^^ 100) r0"
  define t2 where "t2 = (test_round oor iw ifg item True ^^ 100) t1"
  have c0: "alpha r0 = Finite (3602879701896397 / 2 ^ 56)" "baseDelay_B r0 = 1000000000"
    "maxDelay_B r0 = 10000000000" "fle (Finite 0) (failureRate r0)"
    "fle (failureRate r0) (Finite 1)" "scaleFactor r0 = Finite 1"
    unfolding r0_def alpha_val by simp_all
  have c1: "alpha r1 = Finite (3602879701896397 / 2 ^ 56)
    \<and> baseDelay_B r1 = 1000000000 \<and> maxDelay_B r1 = 10000000000
    \<and> fle (Finite 0) (failureRate r1) \<and> fle (failureRate r1) (Finite 1)
    \<and> fle (Finite (99 / 10)) (scaleFactor r1)"
    using ema_100 [where g = "\<lambda>r. Success_B r False" and s = False and r = r0] c0
    unfolding r1_def by simp
  have c2: "fle (scaleFactor r2) (Finite (11 / 10))"
    using ema_100 [where g = "\<lambda>r. Success_B r True" and s = True and r = r1] c1
    unfolding r2_def by simp
  have d1: "alpha t1 = Finite (3602879701896397 / 2 ^ 56)
    \<and> baseDelay_B t1 = 1000000000 \<and> maxDelay_B t1 = 10000000000
    \<and> fle (Finite 0) (failureRate t1) \<and> fle (failureRate t1) (Finite 1)
    \<and> fle (Finite (99 / 10)) (scaleFactor t1)"
    using ema_100 [where g = "test_round oor iw ifg item False" and s = False and r = r0] c0
    unfolding t1_def by simp
  have d2: "fle (scaleFactor t2) (Finite (11 / 10))"
    using ema_100 [where g = "test_round oor iw ifg item True" and s = True and r = t1] d1
    unfolding t2_def by simp
  show ?thesis
    unfolding Let_def r0_def [symmetric] r1_def [symmetric] r2_def [symmetric]
      t1_def [symmetric] t2_def [symmetric]
    using c0(6) c1 c2 d1 d2 by simp
qed

text \<open>
  Claim C9. \<open>Exp()\<close> and \<open>ScaleFactor()\<close> return the stored value and the state they were
  called on, so a second call returns the same value.
\<close>

theorem accessors_read_only:
  "Exp_A r = (exp_A r, r) \<and> fst (Exp_A (snd (Exp_A r))) = fst (Exp_A r)
   \<and> ScaleFactor_B rb = (scaleFactor rb, rb)
   \<and> fst (ScaleFactor_B (snd (ScaleFactor_B rb))) = fst (ScaleFactor_B rb)"
  by (simp add: Exp_A_def ScaleFactor_B_def)

text \<open>
  A delay returned by Variant B lies in \<open>[0, maxDelay]\<close>, whatever the wrapped limiter
  returns and whatever the conversion yields out of range: the jitter is an integer in
  \<open>[0, baseDelay)\<close>.
\<close>

lemma jitter_B_range:
  assumes b: "0 < sint base" and s: "sample_ok p"
  shows "\<exists>j. float64_of_int64 base = Finite (of_int j)
    \<and> 0 \<le> sint (int64_of_float64 oor (fmul (float64_of_int64 base) p))
    \<and> sint (int64_of_float64 oor (fmul (float64_of_int64 base) p)) < sint base
    \<and> sint (int64_of_float64 oor (fmul (float64_of_int64 base) p)) < j"
proof -
  from b have b0: "0 \<le> sint base" by simp
  from float64_of_int64_nonneg [OF b0] b obtain j where
    fb: "float64_of_int64 base = Finite (of_int j)" and j1: "1 \<le> j"
    and j63: "j \<le> 2 ^ 63" and jf: "is_float64 (of_int j)"
    by blast
  from s obtain pp where p: "p = Finite pp" and pf: "is_float64 pp"
    and p0: "0 \<le> pp" and p1: "pp < 1"
    unfolding sample_ok_def by blast
  define B :: real where "B = of_int j"
  have B1: "1 \<le> B" using j1 unfolding B_def by simp
  define jit where "jit = fl (B * pp)"
  have x0: "0 \<le> B * pp" using B1 p0 by simp
  have "B * pp \<le> B * 1" using B1 p1 by (intro mult_left_mono) simp_all
  then have xB: "B * pp \<le> B" by simp
  from round64_le [OF x0 xB] jf
  have rj: "round64 (B * pp) = Finite jit" and jit0: "0 \<le> jit" and jitf: "is_float64 jit"
    by (simp_all add: B_def jit_def)
  have "jit \<le> B * (1 - 1 / 2 ^ 106)"
    unfolding jit_def using B1 pf p0 p1 by (rule jitter_bound)
  moreover have "B * (1 - 1 / 2 ^ 106) < B * 1" using B1 by (intro mult_strict_left_mono) simp_all
  ultimately have jlt: "jit < of_int j" by (simp add: B_def)
  have jb: "jit < of_int (sint base)"
  proof (rule ccontr)
    assume "\<not> jit < of_int (sint base)"
    then have le: "of_int (sint base) \<le> jit" by simp
    have "(0::real) \<le> of_int (sint base)" using b0 by (simp del: of_int_sint)
    then have "fl (of_int (sint base)) \<le> fl jit" using le by (rule fl_mono)
    then have "of_int j \<le> jit"
      using fb jitf by (simp add: float64_of_int64_def fl_exact del: of_int_sint)
    then show False using jlt by simp
  qed
  have t0: "0 \<le> trunc jit" using jit0 by (rule trunc_nonneg)
  have t1: "trunc jit < j" using jlt jit0 by (rule trunc_less_int)
  have t2: "trunc jit < sint base" using jb jit0 by (rule trunc_less_int)
  have "sint (int64_of_float64 oor (Finite jit)) = trunc jit"
    using t0 t1 j63 int64_in_range [of jit oor] by simp
  moreover have "fmul (float64_of_int64 base) p = Finite jit" using rj by (simp add: fb p B_def)
  ultimately show ?thesis using fb t0 t1 t2 by auto
qed

lemma When_B_range:
  assumes b: "0 < sint (baseDelay_B r)" and m: "sint (baseDelay_B r) \<le> sint (maxDelay_B r)"
    and p: "sample_ok (shd (rd_B r))"
  shows "0 \<le> sint (fst (When_B oor iw r item)) \<and>
         sint (fst (When_B oor iw r item)) \<le> sint (maxDelay_B r)"
proof -
  obtain baseline q' where iw: "iw (RateLimiter r) item = (baseline, q')"
    by (cases "iw (RateLimiter r) item")
  define scaled where
    "scaled = int64_of_float64 oor (fmul (float64_of_int64 baseline) (scaleFactor r))"
  define delay where "delay = (if sint (maxDelay_B r) < sint scaled then maxDelay_B r else scaled)"
  define jitter where
    "jitter = int64_of_float64 oor (fmul (float64_of_int64 (baseDelay_B r)) (shd (rd_B r)))"
  have j: "0 \<le> sint jitter" "sint jitter < sint (baseDelay_B r)"
    using jitter_B_range [OF b p, of oor] by (auto simp: jitter_def)
  have d: "sint delay \<le> sint (maxDelay_B r)" by (simp add: delay_def)
  have res: "fst (When_B oor iw r item) = (if sint delay < sint jitter then 0 else delay - jitter)"
    by (simp add: When_B_def iw Let_def scaled_def delay_def jitter_def)
  show ?thesis
  proof (cases "sint delay < sint jitter")
    case True
    then show ?thesis using res b m by simp
  next
    case False
    then have "sint (delay - jitter) = sint delay - sint jitter"
      using j d sint64_range [of delay] by (intro sint_diff64) simp_all
    then show ?thesis using res False j d by simp
  qed
qed

text \<open>
  When the scaled delay fits into 64 bits, a baseline of at least \<open>baseDelay > 0\<close> and a
  scale factor of at least 1 give a strictly positive delay.
\<close>

lemma When_B_positive:
  assumes iw: "iw (RateLimiter r) item = (baseline, q')"
    and b: "0 < sint (baseDelay_B r)" and bl: "sint (baseDelay_B r) \<le> sint baseline"
    and m: "sint (baseDelay_B r) \<le> sint (maxDelay_B r)"
    and sf: "scaleFactor r = Finite s" "1 \<le> s"
    and p: "sample_ok (shd (rd_B r))"
    and fit: "flt (fmul (float64_of_int64 baseline) (scaleFactor r)) (Finite (2 ^ 63))"
  shows "0 < sint (fst (When_B oor iw r item))"
proof -
  define scaled where
    "scaled = int64_of_float64 oor (fmul (float64_of_int64 baseline) (scaleFactor r))"
  define delay where "delay = (if sint (maxDelay_B r) < sint scaled then maxDelay_B r else scaled)"
  define jitter where
    "jitter = int64_of_float64 oor (fmul (float64_of_int64 (baseDelay_B r)) (shd (rd_B r)))"
  from jitter_B_range [OF b p, of oor] obtain j where
    fb: "float64_of_int64 (baseDelay_B r) = Finite (of_int j)"
    and j0: "0 \<le> sint jitter" and jb: "sint jitter < sint (baseDelay_B r)"
    and jj: "sint jitter < j"
    by (auto simp: jitter_def)
  from b have b0: "0 \<le> sint (baseDelay_B r)" by simp
  from b bl have bl0: "0 \<le> sint baseline" by simp
  from float64_of_int64_nonneg [OF bl0] obtain i where
    fl: "float64_of_int64 baseline = Finite (of_int i)" and i0: "0 \<le> i"
    and fi: "is_float64 (of_int i)" by blast
  from float64_of_int64_mono [OF b0 bl] fb fl have ji: "(of_int j :: real) \<le> of_int i" by simp
  define x where "x = fl (of_int i * s)"
  have y0: "(0::real) \<le> of_int i * s" using i0 sf by simp
  have "(of_int i :: real) * 1 \<le> of_int i * s" using i0 sf by (intro mult_left_mono) simp_all
  then have y1: "(of_int i :: real) \<le> of_int i * s" by simp
  have "(0::real) \<le> of_int i" using i0 by simp
  then have "fl (of_int i) \<le> fl (of_int i * s)" using y1 by (rule fl_mono)
  then have xi: "of_int i \<le> x" using fi by (simp add: x_def fl_exact)
  have xj: "of_int j \<le> x" using ji xi by linarith
  from round64_nonneg [OF y0] fit have fx: "fmul (float64_of_int64 baseline) (scaleFactor r) = Finite x"
    and x63: "x < 2 ^ 63"
    by (auto simp: fl sf x_def)
  have "trunc (of_int j) \<le> trunc x" using xj by (rule trunc_mono)
  then have t0: "j \<le> trunc x" by simp
  have x0: "0 \<le> x" using xi i0 by simp
  have t1: "trunc x < 2 ^ 63" using trunc_less_int [of x "2 ^ 63"] x63 x0 by simp
  have "0 \<le> trunc x" using x0 by (rule trunc_nonneg)
  then have "sint scaled = trunc x"
    using t1 int64_in_range [of x oor] by (simp add: scaled_def fx)
  then have "sint jitter < sint scaled" using t0 jj by simp
  then have d: "sint jitter < sint delay" using m jb by (simp add: delay_def)
  have res: "fst (When_B oor iw r item) = (if sint delay < sint jitter then 0 else delay - jitter)"
    by (simp add: When_B_def iw Let_def scaled_def delay_def jitter_def)
  have "sint (delay - jitter) = sint delay - sint jitter"
    using j0 d sint64_range [of delay] by (intro sint_diff64) simp_all
  then show ?thesis using res j0 d by simp
qed

lemma When_B_positive_example:
  "0 < sint (fst (When_B oor_amd64 (\<lambda>q i. (2000000000, q :: nat))
      (Success_B (newItemExponentialFailureRateLimiterWithJitter_B 0 1000000000 10000000000
         (Finite 1) (sconst (Finite (1 / 2)))) False) (1::nat)))"
proof -
  let ?r = "Success_B (newItemExponentialFailureRateLimiterWithJitter_B (0::nat) 1000000000
      10000000000 (Finite 1) (sconst (Finite (1 / 2)))) False"
  have iw: "(\<lambda>q i. (2000000000, q :: nat)) (RateLimiter ?r) (1::nat)
      = (2000000000 :: 64 word, RateLimiter ?r)" by simp
  have sf: "scaleFactor ?r = Finite 10"
    by (simp add: Success_B_def Let_def fsub_def)
  have rd: "rd_B ?r = sconst (Finite (1 / 2))" by (simp add: Success_B_def Let_def)
  have h: "is_float64 (1 / 2)" by (rule is_float64_half)
  have p: "sample_ok (shd (rd_B ?r))" using h by (simp add: rd sample_ok_Finite)
  have fit: "flt (fmul (float64_of_int64 2000000000) (scaleFactor ?r)) (Finite (2 ^ 63))"
    by (simp add: sf)
  show ?thesis
    using When_B_positive [where iw = "\<lambda>q i. (2000000000, q :: nat)" and r = ?r
        and item = "1::nat" and baseline = 2000000000 and q' = "RateLimiter ?r" and s = 10
        and oor = oor_amd64] sf p fit
    by simp
qed

text \<open>
  Claim C10, at the input where the code breaks it. With \<open>baseDelay\<close> one millisecond,
  \<open>maxDelay\<close> one hour and \<open>alpha = 1\<close>, one \<open>Success(false)\<close> sets \<open>scaleFactor\<close> to
  \<open>maxDelay / baseDelay = 3600000\<close>. For a baseline of one hour the scaled delay
  \<open>1.296 * 10^19\<close> does not fit into 64 bits; on amd64 the conversion yields \<open>-2^63\<close>, the
  clamp to \<open>maxDelay\<close> does not fire, the jitter is above the delay, and \<open>When(item)\<close>
  returns zero. Every value of this run is a float64, so no operation of it rounds.
\<close>

theorem When_B_zero_on_overflow:
  "let s = Success_B (newItemExponentialFailureRateLimiterWithJitter_B (0::nat)
             1000000 3600000000000 (Finite 1) (sconst (Finite (1 / 2)))) False;
       inner_When = (\<lambda>q i. (3600000000000, q))
   in 0 < sint (baseDelay_B s) \<and> sint (baseDelay_B s) \<le> sint (maxDelay_B s)
      \<and> sint (baseDelay_B s) \<le> sint (fst (inner_When (RateLimiter s) (1::nat)))
      \<and> scaleFactor s = Finite 3600000
      \<and> fst (When_B oor_amd64 inner_When s 1) = 0"
proof -
  have 1: "round64 12960000000000000000 = Finite 12960000000000000000"
    by (rule round64_exact, rule is_float64I [of 12359619140625 20]) simp_all
  show ?thesis
    by (simp add: When_B_def Success_B_def newItemExponentialFailureRateLimiterWithJitter_B_def
      Let_def fsub_def oor_amd64_def trunc_def sint_of_int64 1)
qed

text \<open>
Where the conversion saturates, the same input returns a positive delay.
\<close>

lemma When_B_saturating:
  "fst (When_B oor_saturate (\<lambda>q i. (3600000000000, q :: nat))
      (Success_B (newItemExponentialFailureRateLimiterWithJitter_B 0 1000000 3600000000000
         (Finite 1) (sconst (Finite (1 / 2)))) False) (1::nat)) = 3599999500000"
proof -
  have 1: "round64 12960000000000000000 = Finite 12960000000000000000"
    by (rule round64_exact, rule is_float64I [of 12359619140625 20]) simp_all
  show ?thesis
    by (simp add: When_B_def Success_B_def newItemExponentialFailureRateLimiterWithJitter_B_def
      Let_def fsub_def trunc_def sint_of_int64 1)
qed

end
